theory Spec2Isabelle
  imports Complex_Main "HOL-Library.Word" "HOL-Library.Product_Lexorder"
begin

section \<open>CosmoScan: the catalog filter engine of CosmoScanApp.tsx\<close>

text \<open>
  The development embeds the filtering, sorting and aggregation logic of
  \<^verbatim>\<open>src/app/components/CosmoScanApp.tsx\<close>: \<^verbatim>\<open>averageRating\<close>, \<^verbatim>\<open>roleLabel\<close>, the
  memoised values \<^verbatim>\<open>categories\<close>, \<^verbatim>\<open>filtered\<close> and \<^verbatim>\<open>focusedProduct\<close>, the debounce effect
  and the seed catalog \<^verbatim>\<open>MOCK_PRODUCTS\<close>.
\<close>

subsection \<open>Strings\<close>

text \<open>
  A JavaScript string is a sequence of UTF-16 code units. String literals of the source
  are written with \<open>js\<close>, which maps an ASCII literal to its code units; a character
  outside printable ASCII is spliced in as its code unit.
\<close>

type_synonym jsstring = "16 word list"

definition js :: "string \<Rightarrow> jsstring" where
  "js s = map of_char s"

text \<open>
  \<^verbatim>\<open>String.prototype.toLowerCase\<close>. On a string of Basic Latin and Latin-1 Supplement code
  units the result is fixed: A to Z and U+00C0 to U+00DE (but the multiplication sign
  U+00D7) move up by \<open>0x20\<close>, every other unit stays, and the length is kept. For a
  string with a code unit above U+00FF the engine consults the case table of its
  Unicode version, which may change the length (U+0130), depend on the context (final
  sigma) and lower surrogate pairs. That table is not part of the repository, so the
  conversion of such strings is the parameter \<open>unicode\<close> of every definition that
  lowers a string.
\<close>

definition lowerUnit :: "16 word \<Rightarrow> 16 word" where
  "lowerUnit c =
     (if (0x41 \<le> c \<and> c \<le> 0x5A) \<or> (0xC0 \<le> c \<and> c \<le> 0xDE \<and> c \<noteq> 0xD7)
      then c + 0x20 else c)"

definition isLatin1 :: "16 word \<Rightarrow> bool" where
  "isLatin1 c \<longleftrightarrow> c \<le> 0xFF"

definition toLowerCase :: "(jsstring \<Rightarrow> jsstring) \<Rightarrow> jsstring \<Rightarrow> jsstring" where
  "toLowerCase unicode s = (if list_all isLatin1 s then map lowerUnit s else unicode s)"

text \<open>
  A fragment of the Unicode table, to instantiate \<open>unicode\<close> in evaluations: the Kelvin
  sign U+212A lowers to \<open>k\<close> and the capital omega U+03A9 to U+03C9.
\<close>

definition cased_sample :: "jsstring \<Rightarrow> jsstring" where
  "cased_sample s =
     map (\<lambda>c. if c = 0x212A then 0x6B else if c = 0x3A9 then 0x3C9 else lowerUnit c) s"

text \<open>
  \<^verbatim>\<open>String.prototype.trim\<close> strips the WhiteSpace and LineTerminator code points of
  ECMAScript from both ends; all of them are single code units.
\<close>

definition isWhiteSpace :: "16 word \<Rightarrow> bool" where
  "isWhiteSpace c \<longleftrightarrow>
     c \<in> set [0x9, 0xA, 0xB, 0xC, 0xD, 0x20, 0xA0, 0x1680, 0x2028, 0x2029, 0x202F,
              0x205F, 0x3000, 0xFEFF]
     \<or> (0x2000 \<le> c \<and> c \<le> 0x200A)"

definition trim :: "jsstring \<Rightarrow> jsstring" where
  "trim s = rev (dropWhile isWhiteSpace (rev (dropWhile isWhiteSpace s)))"

text \<open>
  \<^verbatim>\<open>s.includes(q)\<close>: \<open>q\<close> occurs in \<open>s\<close> as a contiguous run of code units. \<open>startsWith\<close> is
  the test at position 0; \<open>js_includes\<close> tries every position from left to right
  (\<open>includes\<close> is a keyword of Isabelle, hence the prefix).
\<close>

fun startsWith :: "'a list \<Rightarrow> 'a list \<Rightarrow> bool" where
  "startsWith s [] = True"
| "startsWith [] (c # q) = False"
| "startsWith (d # s) (c # q) = (d = c \<and> startsWith s q)"

fun js_includes :: "'a list \<Rightarrow> 'a list \<Rightarrow> bool" where
  "js_includes [] q = startsWith [] q"
| "js_includes (d # s) q = (startsWith (d # s) q \<or> js_includes s q)"

text \<open>The mathematical notion the specification uses: \<open>q\<close> is a substring of \<open>s\<close>.\<close>

definition is_substring :: "'a list \<Rightarrow> 'a list \<Rightarrow> bool" where
  "is_substring q s \<longleftrightarrow> (\<exists>before after. s = before @ q @ after)"

subsection \<open>Numbers\<close>

text \<open>
  A JavaScript number is an IEEE 754 double: a finite value, an infinity or NaN. \<open>Num x\<close>
  is the finite double of value \<open>x\<close>; the two zeros are not told apart, which no sum,
  quotient by a length or comparison below can observe. Every arithmetic result is
  rounded by \<open>round_double\<close>: to the nearest double, a tie to the one with the even
  significand, and to an infinity once the rounded magnitude reaches \<open>2 ^ 1024\<close>. The
  doubles around \<open>x\<close> are the multiples of \<open>pow2 (ulp_exponent x)\<close>: 53 significant
  bits, and never finer than \<open>pow2 (- 1074)\<close>, the least subnormal.
\<close>

datatype number = Num real | PosInfinity | NegInfinity | NaN

definition pow2 :: "int \<Rightarrow> real" where
  "pow2 e = 2 powr of_int e"

definition ulp_exponent :: "real \<Rightarrow> int" where
  "ulp_exponent x = max (- 1074) (\<lfloor>log 2 \<bar>x\<bar>\<rfloor> - 52)"

definition round_half_even :: "real \<Rightarrow> int" where
  "round_half_even q =
     (let f = \<lfloor>q\<rfloor>; r = q - of_int f
      in if r < 1 / 2 then f else if 1 / 2 < r then f + 1 else if even f then f else f + 1)"

definition round_double :: "real \<Rightarrow> number" where
  "round_double x =
     (if x = 0 then Num 0
      else let e = ulp_exponent x;
               y = of_int (round_half_even (x / pow2 e)) * pow2 e
           in if pow2 1024 \<le> \<bar>y\<bar> then (if 0 < x then PosInfinity else NegInfinity)
              else Num y)"

text \<open>
  \<^verbatim>\<open>a + b\<close>, \<^verbatim>\<open>-b\<close> and \<^verbatim>\<open>a - b\<close>. NaN is contagious, and the sum of the two infinities of
  opposite sign is NaN.
\<close>

fun num_add :: "number \<Rightarrow> number \<Rightarrow> number" where
  "num_add (Num x) (Num y) = round_double (x + y)"
| "num_add NaN v = NaN"
| "num_add v NaN = NaN"
| "num_add PosInfinity NegInfinity = NaN"
| "num_add NegInfinity PosInfinity = NaN"
| "num_add PosInfinity v = PosInfinity"
| "num_add v PosInfinity = PosInfinity"
| "num_add NegInfinity v = NegInfinity"
| "num_add v NegInfinity = NegInfinity"

fun num_neg :: "number \<Rightarrow> number" where
  "num_neg (Num x) = Num (- x)"
| "num_neg PosInfinity = NegInfinity"
| "num_neg NegInfinity = PosInfinity"
| "num_neg NaN = NaN"

definition num_sub :: "number \<Rightarrow> number \<Rightarrow> number" where
  "num_sub a b = num_add a (num_neg b)"

text \<open>
  \<^verbatim>\<open>a / xs.length\<close>: the divisor is the length of an array, a non-negative integer that a
  double holds exactly. A length of 0 is the positive zero, so a finite non-zero
  dividend gives the infinity of its sign and a zero dividend gives NaN.
\<close>

fun num_div_length :: "number \<Rightarrow> nat \<Rightarrow> number" where
  "num_div_length (Num x) n =
     (if n = 0 then (if 0 < x then PosInfinity else if x < 0 then NegInfinity else NaN)
      else round_double (x / real n))"
| "num_div_length v n = v"

text \<open>\<^verbatim>\<open>a >= b\<close>: false whenever an operand is NaN.\<close>

fun num_ge :: "number \<Rightarrow> number \<Rightarrow> bool" where
  "num_ge (Num x) (Num y) = (y \<le> x)"
| "num_ge NaN v = False"
| "num_ge v NaN = False"
| "num_ge PosInfinity v = True"
| "num_ge v NegInfinity = True"
| "num_ge v PosInfinity = False"
| "num_ge NegInfinity v = False"

text \<open>\<^verbatim>\<open>v > 0\<close>, the test \<^verbatim>\<open>sort\<close> makes on what the comparator returns.\<close>

definition num_gt0 :: "number \<Rightarrow> bool" where
  "num_gt0 v = (case v of Num x \<Rightarrow> 0 < x | PosInfinity \<Rightarrow> True | _ \<Rightarrow> False)"

text \<open>
  Two notions for the proofs. A number is on the grid when it is an infinity or a finite
  multiple of the least subnormal, as every rounded result is. \<open>desc_key\<close> maps the
  numbers into a linear order, the larger number to the smaller key.
\<close>

definition on_grid :: "number \<Rightarrow> bool" where
  "on_grid v =
     (case v of Num x \<Rightarrow> (\<exists>k::int. x = of_int k * pow2 (- 1074)) | NaN \<Rightarrow> False | _ \<Rightarrow> True)"

definition desc_key :: "number \<Rightarrow> int \<times> real" where
  "desc_key v =
     (case v of PosInfinity \<Rightarrow> (- 1, 0) | Num x \<Rightarrow> (0, - x) | NegInfinity \<Rightarrow> (1, 0)
      | NaN \<Rightarrow> (2, 0))"

subsection \<open>Data model\<close>

text \<open>
  The types \<^verbatim>\<open>Ingredient\<close>, \<^verbatim>\<open>Review\<close> and \<^verbatim>\<open>Product\<close>. An optional field is an \<open>option\<close>. The
  role of an ingredient is a string at run time: the seed data stores the tag
  \<^verbatim>\<open>"solvent"\<close>, cast with \<^verbatim>\<open>as any\<close>, which the type \<^verbatim>\<open>IngredientRole\<close> does not list.
  A rating is a number, so it may be negative, an infinity or NaN. The field \<^verbatim>\<open>name\<close> of an
  ingredient is called \<open>ing_name\<close> and the field \<^verbatim>\<open>id\<close> of a product \<open>pid\<close>.
\<close>

record Ingredient =
  ing_name :: jsstring
  role :: jsstring
  active :: "bool option"
  allergenic :: "bool option"
  controversial :: "jsstring list option"

record Review =
  user :: jsstring
  rating :: number
  comment :: jsstring

record Product =
  pid :: jsstring
  name :: jsstring
  brand :: jsstring
  category :: jsstring
  inci :: "Ingredient list"
  usage :: jsstring
  skinTypes :: "jsstring list"
  reviews :: "Review list"

subsection \<open>averageRating\<close>

text \<open>
  \<^verbatim>\<open>
  function averageRating(reviews: Review[]) {
    if (!reviews || reviews.length === 0) return 0;
    const sum = reviews.reduce((acc, r) => acc + r.rating, 0);
    return sum / reviews.length;
  }
  \<close>
  The argument is typed as an array, so the guard \<^verbatim>\<open>!reviews\<close> never fires; \<^verbatim>\<open>reduce\<close> is
  a left fold from 0, each addition rounded.
\<close>

definition averageRating :: "Review list \<Rightarrow> number" where
  "averageRating rs =
     (if length rs = 0 then Num 0
      else (let sum = foldl (\<lambda>acc r. num_add acc (rating r)) (Num 0) rs
            in num_div_length sum (length rs)))"

subsection \<open>Array.prototype.sort and the Set constructor\<close>

text \<open>
  \<^verbatim>\<open>list.sort(cmp)\<close> is a library routine of the engine. ECMAScript (from the 2019 edition
  on) requires it to be stable, and for a consistent comparator the sorted order is then
  determined. It is modelled as the stable insertion sort: an element is placed before
  the first element that it need not follow, so elements that compare equal keep their
  order. An element must follow another when the comparator returns a number above 0;
  \<^verbatim>\<open>sort\<close> reads a NaN from the comparator as 0.
\<close>

fun insert_cmp :: "('a \<Rightarrow> 'a \<Rightarrow> number) \<Rightarrow> 'a \<Rightarrow> 'a list \<Rightarrow> 'a list" where
  "insert_cmp cmp x [] = [x]"
| "insert_cmp cmp x (y # ys) =
     (if num_gt0 (cmp x y) then y # insert_cmp cmp x ys else x # y # ys)"

definition array_sort :: "('a \<Rightarrow> 'a \<Rightarrow> number) \<Rightarrow> 'a list \<Rightarrow> 'a list" where
  "array_sort cmp xs = foldr (insert_cmp cmp) xs []"

text \<open>
  \<^verbatim>\<open>new Set(xs)\<close> adds the elements from left to right; an element already present is not
  added again, and iteration is in insertion order.
\<close>

definition set_add :: "'a list \<Rightarrow> 'a \<Rightarrow> 'a list" where
  "set_add base x = (if x \<in> set base then base else base @ [x])"

definition new_Set :: "'a list \<Rightarrow> 'a list" where
  "new_Set xs = foldl set_add [] xs"

subsection \<open>The derived values of the component\<close>

text \<open>
  \<^verbatim>\<open>
  const categories = useMemo(() => {
    const base = new Set(products.map((p) => p.category));
    return ["todas", ...Array.from(base)];
  }, [products]);
  \<close>
\<close>

definition categories :: "Product list \<Rightarrow> jsstring list" where
  "categories products =
     (let base = new_Set (map category products) in js ''todas'' # base)"

text \<open>
  The three predicates of the filter callback, over the normalised query \<open>q\<close> and the
  normalised selected category \<open>cat\<close> that \<^verbatim>\<open>filtered\<close> computes first. An empty string is
  falsy, so \<^verbatim>\<open>!q\<close> is \<open>q = []\<close>.
  \<^verbatim>\<open>
  const matchesText =
    !q ||
    p.name.toLowerCase().includes(q) ||
    p.brand.toLowerCase().includes(q) ||
    p.category.toLowerCase().includes(q) ||
    p.inci.some((ing) => ing.name.toLowerCase().includes(q));
  const matchesCat = cat === "todas" || p.category.toLowerCase() === cat;
  const matchesRating = averageRating(p.reviews) >= minRating;
  \<close>
\<close>

definition matchesText :: "(jsstring \<Rightarrow> jsstring) \<Rightarrow> jsstring \<Rightarrow> Product \<Rightarrow> bool" where
  "matchesText unicode q p \<longleftrightarrow>
     q = [] \<or>
     js_includes (toLowerCase unicode (name p)) q \<or>
     js_includes (toLowerCase unicode (brand p)) q \<or>
     js_includes (toLowerCase unicode (category p)) q \<or>
     list_ex (\<lambda>ing. js_includes (toLowerCase unicode (ing_name ing)) q) (inci p)"

definition matchesCat :: "(jsstring \<Rightarrow> jsstring) \<Rightarrow> jsstring \<Rightarrow> Product \<Rightarrow> bool" where
  "matchesCat unicode cat p \<longleftrightarrow>
     cat = js ''todas'' \<or> toLowerCase unicode (category p) = cat"

definition matchesRating :: "number \<Rightarrow> Product \<Rightarrow> bool" where
  "matchesRating minRating p \<longleftrightarrow> num_ge (averageRating (reviews p)) minRating"

text \<open>
  \<^verbatim>\<open>
  const filtered = useMemo(() => {
    const q = debouncedQuery.trim().toLowerCase();
    const cat = category.toLowerCase();
    let list = products.filter((p) => { ... return matchesText && matchesCat && matchesRating; });
    list.sort((a, b) => averageRating(b.reviews) - averageRating(a.reviews));
    return list;
  }, [products, debouncedQuery, category, minRating]);
  \<close>
  The state variable \<^verbatim>\<open>category\<close> is called \<open>selected\<close> here, the name \<open>category\<close> being the
  field of a product; \<open>byRatingDesc\<close> is the comparator passed to \<^verbatim>\<open>sort\<close>.
\<close>

definition byRatingDesc :: "Product \<Rightarrow> Product \<Rightarrow> number" where
  "byRatingDesc a b = num_sub (averageRating (reviews b)) (averageRating (reviews a))"

definition filtered ::
  "(jsstring \<Rightarrow> jsstring) \<Rightarrow> Product list \<Rightarrow> jsstring \<Rightarrow> jsstring \<Rightarrow> number \<Rightarrow> Product list" where
  "filtered unicode products debouncedQuery selected minRating =
     (let q = toLowerCase unicode (trim debouncedQuery);
          cat = toLowerCase unicode selected;
          list = filter (\<lambda>p. matchesText unicode q p \<and> matchesCat unicode cat p \<and>
                            matchesRating minRating p)
                   products
      in array_sort byRatingDesc list)"

text \<open>The key by which the proofs order the products of a sorted list.\<close>

definition avg_key :: "Product \<Rightarrow> int \<times> real" where
  "avg_key p = desc_key (averageRating (reviews p))"

text \<open>
  \<^verbatim>\<open>
  const focusedProduct = useMemo(
    () => products.find((p) => p.id === focusId) ?? null, [focusId, products]);
  \<close>
  \<^verbatim>\<open>focusId\<close> is a string or \<^verbatim>\<open>null\<close>; \<^verbatim>\<open>find\<close> returns the first match or \<^verbatim>\<open>undefined\<close>, which
  \<^verbatim>\<open>??\<close> turns into \<^verbatim>\<open>null\<close>. \<open>None\<close> stands for \<^verbatim>\<open>null\<close>; no branch throws.
\<close>

definition focusedProduct :: "Product list \<Rightarrow> jsstring option \<Rightarrow> Product option" where
  "focusedProduct products focusId = find (\<lambda>p. Some (pid p) = focusId) products"

subsection \<open>roleLabel and the ingredient table\<close>

text \<open>
  \<^verbatim>\<open>
  function roleLabel(role: IngredientRole) {
    const map: Partial<Record<IngredientRole, string>> = { moisturizer: "Hidratante", ... };
    return (map[role] as string) ?? role;
  }
  \<close>
  \<^verbatim>\<open>map\<close> is an object literal, so \<^verbatim>\<open>map[role]\<close> is a property read: an own property of the
  literal first, then the prototype chain, which for a literal is \<^verbatim>\<open>Object.prototype\<close>. The
  members of \<^verbatim>\<open>Object.prototype\<close> are functions or objects, none of them \<^verbatim>\<open>null\<close> or
  \<^verbatim>\<open>undefined\<close>; \<open>Inherited k\<close> stands for the member named \<open>k\<close>. A key found nowhere
  reads as \<^verbatim>\<open>undefined\<close> (\<open>None\<close>), the only case in which \<^verbatim>\<open>??\<close> takes its right operand.
\<close>

datatype js_value = Str jsstring | Inherited jsstring

definition role_map :: "(jsstring \<times> jsstring) list" where
  "role_map =
     [(js ''moisturizer'', js ''Hidratante''),
      (js ''antioxidant'', js ''Antioxidante''),
      (js ''preservative'', js ''Conservante''),
      (js ''sunscreen'', js ''Filtro solar''),
      (js ''fragrance'', js ''Fragr'' @ [0xE2] @ js ''ncia''),
      (js ''humectant'', js ''Umectante''),
      (js ''emollient'', js ''Emoliente''),
      (js ''surfactant'', js ''Tensoativo''),
      (js ''exfoliant'', js ''Esfoliante'')]"

definition object_prototype_members :: "jsstring list" where
  "object_prototype_members =
     [js ''constructor'', js ''hasOwnProperty'', js ''isPrototypeOf'',
      js ''propertyIsEnumerable'', js ''toLocaleString'', js ''toString'', js ''valueOf'',
      js ''__proto__'', js ''__defineGetter__'', js ''__defineSetter__'',
      js ''__lookupGetter__'', js ''__lookupSetter__'']"

definition get_property :: "(jsstring \<times> jsstring) list \<Rightarrow> jsstring \<Rightarrow> js_value option" where
  "get_property obj key =
     (case map_of obj key of
        Some v \<Rightarrow> Some (Str v)
      | None \<Rightarrow> if key \<in> set object_prototype_members then Some (Inherited key) else None)"

definition roleLabel :: "jsstring \<Rightarrow> js_value" where
  "roleLabel r = (case get_property role_map r of Some v \<Rightarrow> v | None \<Rightarrow> Str r)"

text \<open>
  The rows of the ingredient table of \<^verbatim>\<open>ProductModal\<close>, one per element of
  \<^verbatim>\<open>product.inci\<close>: the name, the role label, whether the badges for an active and for an
  allergenic ingredient are shown, and the text of the controversy badge when the list
  of reasons is present and not empty.
\<close>

fun join :: "jsstring \<Rightarrow> jsstring list \<Rightarrow> jsstring" where
  "join sep [] = []"
| "join sep [x] = x"
| "join sep (x # y # ys) = x @ sep @ join sep (y # ys)"

record IngredientRow =
  row_name :: jsstring
  row_role :: js_value
  row_active :: bool
  row_allergenic :: bool
  row_controversial :: "jsstring option"

definition ingredientRow :: "Ingredient \<Rightarrow> IngredientRow" where
  "ingredientRow ing =
     \<lparr>row_name = ing_name ing,
      row_role = roleLabel (role ing),
      row_active = (active ing = Some True),
      row_allergenic = (allergenic ing = Some True),
      row_controversial =
        (case controversial ing of
           Some (c # cs) \<Rightarrow> Some (js ''Controverso: '' @ join (js '', '') (c # cs))
         | _ \<Rightarrow> None)\<rparr>"

definition ingredientTable :: "Product \<Rightarrow> IngredientRow list" where
  "ingredientTable product = map ingredientRow (inci product)"

subsection \<open>The seed catalog\<close>

text \<open>
  \<^verbatim>\<open>MOCK_PRODUCTS\<close>, field by field as in the source; the component keeps this very array
  as its state \<^verbatim>\<open>products\<close>. A character outside printable ASCII is given by its code
  unit (\<open>0xE9\<close> is e with acute accent, \<open>0x2013\<close> the en dash, \<open>0xA\<close> the line feed).
\<close>

definition p1 :: Product where
  "p1 = \<lparr>
     pid = js ''p1'',
     name = js ''Derma Glow Hidratante Facial'',
     brand = js ''CosmoLab'',
     category = js ''hidratante'',
     inci = [
       \<lparr>ing_name = js ''Aqua'', role = js ''solvent'',
        active = None, allergenic = None, controversial = None\<rparr>,
       \<lparr>ing_name = js ''Glycerin'', role = js ''humectant'',
        active = Some True, allergenic = None, controversial = None\<rparr>,
       \<lparr>ing_name = js ''Sodium Hyaluronate (Hyaluronic Acid)'', role = js ''humectant'',
        active = Some True, allergenic = None, controversial = None\<rparr>,
       \<lparr>ing_name = js ''Caprylic/Capric Triglyceride'', role = js ''emollient'',
        active = None, allergenic = None, controversial = None\<rparr>,
       \<lparr>ing_name = js ''Phenoxyethanol'', role = js ''preservative'',
        active = None, allergenic = None, controversial = Some [js ''conservante sint'' @ [0xE9] @
            js ''tico'']\<rparr>,
       \<lparr>ing_name = js ''Parfum (Fragrance)'', role = js ''fragrance'',
        active = None, allergenic = Some True, controversial = None\<rparr>],
     usage = js ''Aplicar de 1 a 2 pumps sobre a pele limpa, de manh'' @ [0xE3] @ js '' e '' @
         [0xE0] @ js '' noite.'' @ [0xA] @ js ''Reaplicar em '' @ [0xE1] @
         js ''reas ressecadas quando necess'' @ [0xE1] @ js ''rio.'',
     skinTypes = [js ''seca'', js ''mista'', js ''sens'' @ [0xED] @ js ''vel''],
     reviews = [
       \<lparr>user = js ''Ana P.'', rating = Num 5,
        comment = js ''Deixou minha pele macia sem pesar.''\<rparr>,
       \<lparr>user = js ''Larissa'', rating = Num 4,
        comment = js ''Hidrata bem, cheiro suave.''\<rparr>]\<rparr>"

definition p2 :: Product where
  "p2 = \<lparr>
     pid = js ''p2'',
     name = js ''UV Defense Pro SPF 50'',
     brand = js ''Solaris'',
     category = js ''protetor solar'',
     inci = [
       \<lparr>ing_name = js ''Aqua'', role = js ''solvent'',
        active = None, allergenic = None, controversial = None\<rparr>,
       \<lparr>ing_name = js ''Homosalate'', role = js ''sunscreen'',
        active = Some True, allergenic = None, controversial = Some [js ''filtro qu'' @ [0xED] @
            js ''mico'']\<rparr>,
       \<lparr>ing_name = js ''Octocrylene'', role = js ''sunscreen'',
        active = Some True, allergenic = None, controversial = Some [js ''filtro qu'' @ [0xED] @
            js ''mico'']\<rparr>,
       \<lparr>ing_name = js ''Butyl Methoxydibenzoylmethane (Avobenzone)'', role = js ''sunscreen'',
        active = Some True, allergenic = None, controversial = None\<rparr>,
       \<lparr>ing_name = js ''Silica'', role = js ''emollient'',
        active = None, allergenic = None, controversial = None\<rparr>,
       \<lparr>ing_name = js ''Phenoxyethanol'', role = js ''preservative'',
        active = None, allergenic = None, controversial = None\<rparr>],
     usage = js ''Aplicar generosamente 15 minutos antes da exposi'' @ [0xE7, 0xE3] @
         js ''o solar.'' @ [0xA] @ js ''Reaplicar a cada 2 horas e ap'' @ [0xF3] @
         js ''s suor intenso, nata'' @ [0xE7, 0xE3] @ js ''o ou secar-se com toalha.'',
     skinTypes = [js ''oleosa'', js ''mista''],
     reviews = [
       \<lparr>user = js ''Carlos'', rating = Num 4,
        comment = js ''Textura leve e acabamento matte.''\<rparr>,
       \<lparr>user = js ''Bianca'', rating = Num 3,
        comment = js ''Boa prote'' @ [0xE7, 0xE3] @
            js ''o, poderia ser menos perfumado.''\<rparr>]\<rparr>"

definition p3 :: Product where
  "p3 = \<lparr>
     pid = js ''p3'',
     name = js ''Clean Foam Gel'',
     brand = js ''PureSkin'',
     category = js ''limpeza'',
     inci = [
       \<lparr>ing_name = js ''Aqua'', role = js ''solvent'',
        active = None, allergenic = None, controversial = None\<rparr>,
       \<lparr>ing_name = js ''Cocamidopropyl Betaine'', role = js ''surfactant'',
        active = None, allergenic = None, controversial = None\<rparr>,
       \<lparr>ing_name = js ''Sodium Laureth Sulfate'', role = js ''surfactant'',
        active = None, allergenic = None, controversial = Some [js ''SLES'']\<rparr>,
       \<lparr>ing_name = js ''Aloe Barbadensis Leaf Juice'', role = js ''moisturizer'',
        active = Some True, allergenic = None, controversial = None\<rparr>,
       \<lparr>ing_name = js ''Parfum (Fragrance)'', role = js ''fragrance'',
        active = None, allergenic = Some True, controversial = None\<rparr>],
     usage = js ''Massagear sobre a pele '' @ [0xFA] @ js ''mida e enxaguar. Usar 1'' @ [0x2013] @
         js ''2x ao dia.'',
     skinTypes = [js ''oleosa'', js ''mista''],
     reviews = [
       \<lparr>user = js ''Jo'' @ [0xE3] @ js ''o'', rating = Num 4,
        comment = js ''Lava bem e n'' @ [0xE3] @ js ''o repuxa.''\<rparr>,
       \<lparr>user = js ''Vivi'', rating = Num 2,
        comment = js ''Achei um pouco agressivo para pele sens'' @ [0xED] @
            js ''vel.''\<rparr>]\<rparr>"

definition p4 :: Product where
  "p4 = \<lparr>
     pid = js ''p4'',
     name = js ''Night Repair Serum'',
     brand = js ''Reviva'',
     category = js ''anti-idade'',
     inci = [
       \<lparr>ing_name = js ''Aqua'', role = js ''solvent'',
        active = None, allergenic = None, controversial = None\<rparr>,
       \<lparr>ing_name = js ''Retinol'', role = js ''antioxidant'',
        active = Some True, allergenic = None, controversial = Some [js ''fotossens'' @ [0xED] @
            js ''vel'']\<rparr>,
       \<lparr>ing_name = js ''Niacinamide'', role = js ''antioxidant'',
        active = Some True, allergenic = None, controversial = None\<rparr>,
       \<lparr>ing_name = js ''Squalane'', role = js ''emollient'',
        active = None, allergenic = None, controversial = None\<rparr>,
       \<lparr>ing_name = js ''Phenoxyethanol'', role = js ''preservative'',
        active = None, allergenic = None, controversial = None\<rparr>],
     usage = js ''Aplicar '' @ [0xE0] @ js '' noite sobre a pele limpa. Iniciar 2'' @ [0x2013] @
         js ''3x/semana e aumentar conforme toler'' @ [0xE2] @
         js ''ncia. Usar protetor solar durante o dia.'',
     skinTypes = [js ''mista'', js ''normal''],
     reviews = [
       \<lparr>user = js ''Priscila'', rating = Num 5,
        comment = js ''Pele mais vi'' @ [0xE7] @ js ''osa ap'' @ [0xF3] @
            js ''s 3 semanas.''\<rparr>,
       \<lparr>user = js ''Renata'', rating = Num 4,
        comment = js ''Textura '' @ [0xF3] @ js ''tima, sem irritar.''\<rparr>]\<rparr>"

definition p5 :: Product where
  "p5 = \<lparr>
     pid = js ''p5'',
     name = js ''Hydra Calm Creme'',
     brand = js ''Dermasoft'',
     category = js ''hidratante'',
     inci = [
       \<lparr>ing_name = js ''Aqua'', role = js ''solvent'',
        active = None, allergenic = None, controversial = None\<rparr>,
       \<lparr>ing_name = js ''Ceramide NP'', role = js ''moisturizer'',
        active = Some True, allergenic = None, controversial = None\<rparr>,
       \<lparr>ing_name = js ''Shea Butter (Butyrospermum Parkii)'', role = js ''emollient'',
        active = None, allergenic = None, controversial = None\<rparr>,
       \<lparr>ing_name = js ''Allantoin'', role = js ''moisturizer'',
        active = None, allergenic = None, controversial = None\<rparr>,
       \<lparr>ing_name = js ''Methylparaben'', role = js ''preservative'',
        active = None, allergenic = None, controversial = Some [js ''parabeno'']\<rparr>],
     usage = js ''Aplicar no rosto e pesco'' @ [0xE7] @ js ''o ap'' @ [0xF3] @
         js ''s a limpeza, de manh'' @ [0xE3] @ js '' e '' @ [0xE0] @ js '' noite.'',
     skinTypes = [js ''seca'', js ''sens'' @ [0xED] @ js ''vel''],
     reviews = [
       \<lparr>user = js ''Luca'', rating = Num 4,
        comment = js ''Calmou bastante a vermelhid'' @ [0xE3] @ js ''o.''\<rparr>,
       \<lparr>user = js ''Bia'', rating = Num 5,
        comment = js ''Muito nutritivo, rende bem.''\<rparr>]\<rparr>"

definition p6 :: Product where
  "p6 = \<lparr>
     pid = js ''p6'',
     name = js ''AHA 8% Peeling Solution'',
     brand = js ''SkinTune'',
     category = js ''tratamento'',
     inci = [
       \<lparr>ing_name = js ''Aqua'', role = js ''solvent'',
        active = None, allergenic = None, controversial = None\<rparr>,
       \<lparr>ing_name = js ''Glycolic Acid'', role = js ''exfoliant'',
        active = Some True, allergenic = None, controversial = Some [[0xE1] @
            js ''cido AHA'']\<rparr>,
       \<lparr>ing_name = js ''Propylene Glycol'', role = js ''humectant'',
        active = None, allergenic = None, controversial = None\<rparr>,
       \<lparr>ing_name = js ''Panthenol'', role = js ''moisturizer'',
        active = None, allergenic = None, controversial = None\<rparr>,
       \<lparr>ing_name = js ''Phenoxyethanol'', role = js ''preservative'',
        active = None, allergenic = None, controversial = None\<rparr>],
     usage = js ''Aplicar '' @ [0xE0] @ js '' noite 1'' @ [0x2013] @ js ''2x/semana por at'' @
         [0xE9] @ js '' 10 minutos. Enxaguar. Usar protetor solar no dia seguinte.'',
     skinTypes = [js ''mista'', js ''oleosa''],
     reviews = [
       \<lparr>user = js ''Marcos'', rating = Num 3,
        comment = js ''Esfolia bem, sensa'' @ [0xE7, 0xE3] @ js ''o de ardor leve.''\<rparr>,
       \<lparr>user = js ''Keyla'', rating = Num 4,
        comment = js ''Pele mais lisa ap'' @ [0xF3] @ js ''s 1 m'' @ [0xEA] @
            js ''s.''\<rparr>]\<rparr>"

definition MOCK_PRODUCTS :: "Product list" where
  "MOCK_PRODUCTS = [p1, p2, p3, p4, p5, p6]"

text \<open>
  Review ratings are not validated anywhere, so a catalog may hold a product whose only
  review has a negative rating, and reviews with ratings so large that their sum
  overflows; these are used to evaluate the rating predicate and the average.
\<close>

definition negative_review_product :: Product where
  "negative_review_product =
     \<lparr>pid = js ''n1'', name = js ''Sample'', brand = js ''Brand'', category = js ''limpeza'',
      inci = [], usage = js '''', skinTypes = [],
      reviews = [\<lparr>user = js ''Critic'', rating = Num (- 1), comment = js ''''\<rparr>]\<rparr>"

definition huge_reviews :: "Review list" where
  "huge_reviews =
     [\<lparr>user = js ''A'', rating = Num (pow2 1023), comment = js ''''\<rparr>,
      \<lparr>user = js ''B'', rating = Num (pow2 1023), comment = js ''''\<rparr>]"

subsection \<open>Arrays and objects in a store\<close>

text \<open>
  \<^verbatim>\<open>Array.prototype.sort\<close> sorts in place, and an array of products holds references to
  product objects. Whether deriving the views can change the seed data depends on which
  array is written, so the derivation is also given over an explicit store: a cell is a
  product object, an array of references to products, an array of strings or a
  \<^verbatim>\<open>Set\<close> of strings, and allocation takes the next unused address. An operation
  returns \<open>None\<close> where the engine would throw a \<^verbatim>\<open>TypeError\<close>: the address holds no array
  of products, or an element is no product object.
\<close>

type_synonym ref = nat

datatype cell = Obj Product | Arr "ref list" | StrArr "jsstring list" | SetObj "jsstring list"

record heap =
  store :: "ref \<rightharpoonup> cell"
  fresh :: ref

definition alloc :: "cell \<Rightarrow> heap \<Rightarrow> ref \<times> heap" where
  "alloc c h = (fresh h, h\<lparr>store := (store h)(fresh h \<mapsto> c), fresh := Suc (fresh h)\<rparr>)"

definition read_array :: "heap \<Rightarrow> ref \<Rightarrow> ref list option" where
  "read_array h a = (case store h a of Some (Arr rs) \<Rightarrow> Some rs | _ \<Rightarrow> None)"

definition read_product :: "heap \<Rightarrow> ref \<Rightarrow> Product option" where
  "read_product h r = (case store h r of Some (Obj p) \<Rightarrow> Some p | _ \<Rightarrow> None)"

text \<open>The elements of an array of products, each with the object it refers to.\<close>

definition read_products :: "heap \<Rightarrow> ref \<Rightarrow> (ref \<times> Product) list option" where
  "read_products h a =
     (case read_array h a of
        None \<Rightarrow> None
      | Some rs \<Rightarrow> map_option (zip rs) (those (map (read_product h) rs)))"

text \<open>\<^verbatim>\<open>xs.filter(pred)\<close> builds a new array; \<^verbatim>\<open>xs.sort(cmp)\<close> overwrites \<^verbatim>\<open>xs\<close> and returns it.\<close>

definition array_filter_h :: "(Product \<Rightarrow> bool) \<Rightarrow> ref \<Rightarrow> heap \<Rightarrow> (ref \<times> heap) option" where
  "array_filter_h pred a h =
     (case read_products h a of
        None \<Rightarrow> None
      | Some rps \<Rightarrow> Some (alloc (Arr (map fst (filter (\<lambda>rp. pred (snd rp)) rps))) h))"

definition array_sort_h ::
  "(Product \<Rightarrow> Product \<Rightarrow> number) \<Rightarrow> ref \<Rightarrow> heap \<Rightarrow> (ref \<times> heap) option" where
  "array_sort_h cmp a h =
     (case read_products h a of
        None \<Rightarrow> None
      | Some rps \<Rightarrow>
          Some (a, h\<lparr>store := (store h)
                  (a \<mapsto> Arr (map fst (array_sort (\<lambda>x y. cmp (snd x) (snd y)) rps)))\<rparr>))"

text \<open>
  \<^verbatim>\<open>categories\<close> over the store: \<^verbatim>\<open>products.map(...)\<close>, \<^verbatim>\<open>new Set(...)\<close>, \<^verbatim>\<open>Array.from(base)\<close>
  and the array literal each allocate.
\<close>

definition categories_h :: "ref \<Rightarrow> heap \<Rightarrow> (ref \<times> heap) option" where
  "categories_h products h =
     (case read_products h products of
        None \<Rightarrow> None
      | Some rps \<Rightarrow>
          (let mapped = map (\<lambda>rp. category (snd rp)) rps;
               (m, h1) = alloc (StrArr mapped) h;
               (base, h2) = alloc (SetObj (new_Set mapped)) h1;
               (from, h3) = alloc (StrArr (new_Set mapped)) h2
           in Some (alloc (StrArr (js ''todas'' # new_Set mapped)) h3)))"

definition filtered_h ::
  "(jsstring \<Rightarrow> jsstring) \<Rightarrow> ref \<Rightarrow> jsstring \<Rightarrow> jsstring \<Rightarrow> number \<Rightarrow> heap \<Rightarrow>
     (ref \<times> heap) option" where
  "filtered_h unicode products debouncedQuery selected minRating h =
     (let q = toLowerCase unicode (trim debouncedQuery);
          cat = toLowerCase unicode selected
      in case array_filter_h
                (\<lambda>p. matchesText unicode q p \<and> matchesCat unicode cat p \<and>
                     matchesRating minRating p)
                products h of
           None \<Rightarrow> None
         | Some (list, h1) \<Rightarrow> array_sort_h byRatingDesc list h1)"

text \<open>One render: the category list, then the filtered and sorted list.\<close>

definition derive_h ::
  "(jsstring \<Rightarrow> jsstring) \<Rightarrow> ref \<Rightarrow> jsstring \<Rightarrow> jsstring \<Rightarrow> number \<Rightarrow> heap \<Rightarrow>
     ((ref \<times> ref) \<times> heap) option" where
  "derive_h unicode products debouncedQuery selected minRating h =
     (case categories_h products h of
        None \<Rightarrow> None
      | Some (cats, h1) \<Rightarrow>
          (case filtered_h unicode products debouncedQuery selected minRating h1 of
             None \<Rightarrow> None
           | Some (list, h2) \<Rightarrow> Some ((cats, list), h2)))"

text \<open>The contents of an array of products, and of an array of strings.\<close>

definition products_at :: "heap \<Rightarrow> ref \<Rightarrow> Product list option" where
  "products_at h a = map_option (map snd) (read_products h a)"

definition strings_at :: "heap \<Rightarrow> ref \<Rightarrow> jsstring list option" where
  "strings_at h a = (case store h a of Some (StrArr xs) \<Rightarrow> Some xs | _ \<Rightarrow> None)"

text \<open>
  A store that holds a catalog: the product objects at the addresses \<open>0, 1, ...\<close> and the
  array of references to them after the last object.
\<close>

definition load_catalog :: "Product list \<Rightarrow> ref \<times> heap" where
  "load_catalog ps =
     (length ps,
      \<lparr>store = (\<lambda>a. if a < length ps then Some (Obj (ps ! a))
                     else if a = length ps then Some (Arr [0..<length ps]) else None),
       fresh = Suc (length ps)\<rparr>)"

text \<open>A store is well formed when nothing lies at or beyond the next unused address.\<close>

definition wf_heap :: "heap \<Rightarrow> bool" where
  "wf_heap h \<longleftrightarrow> (\<forall>a. fresh h \<le> a \<longrightarrow> store h a = None)"

subsection \<open>The debounce effect\<close>

text \<open>
  \<^verbatim>\<open>
  const [query, setQuery] = useState("");
  const [debouncedQuery, setDebouncedQuery] = useState(query);
  useEffect(() => {
    const t = setTimeout(() => setDebouncedQuery(query), 250);
    return () => clearTimeout(t);
  }, [query]);
  \<close>
  The hooks and the timer form a state machine over a logical clock in milliseconds.
  The effect runs on mount and after every render in which \<^verbatim>\<open>query\<close> has changed; before it
  runs again its cleanup clears the timeout of the previous run. \<^verbatim>\<open>setQuery\<close> with the
  current value changes nothing (the state hook bails out, the dependency is unchanged).
  A pending timeout is its deadline and the value of \<^verbatim>\<open>query\<close> its closure captured;
  it fires once the clock has reached the deadline. Firing sets \<^verbatim>\<open>debouncedQuery\<close>, which
  is not a dependency of the effect. Two fields only record history: \<open>scheduled\<close> lists
  the calls of \<^verbatim>\<open>setTimeout\<close> (time of the call, captured value), \<open>applied\<close> the calls of
  \<^verbatim>\<open>setDebouncedQuery\<close> (time, value), both oldest first.
\<close>

record hooks =
  now :: nat
  query :: jsstring
  debouncedQuery :: jsstring
  timer :: "(nat \<times> jsstring) option"
  scheduled :: "(nat \<times> jsstring) list"
  applied :: "(nat \<times> jsstring) list"

datatype event = SetQuery jsstring | Elapse nat

definition mount :: hooks where
  "mount = \<lparr>now = 0, query = [], debouncedQuery = [], timer = Some (250, []),
            scheduled = [(0, [])], applied = []\<rparr>"

fun step :: "hooks \<Rightarrow> event \<Rightarrow> hooks" where
  "step s (SetQuery v) =
     (if v = query s then s
      else s\<lparr>query := v, timer := Some (now s + 250, v),
             scheduled := scheduled s @ [(now s, v)]\<rparr>)"
| "step s (Elapse d) =
     (case timer s of
        None \<Rightarrow> s\<lparr>now := now s + d\<rparr>
      | Some (deadline, v) \<Rightarrow>
          if deadline \<le> now s + d
          then s\<lparr>now := now s + d, debouncedQuery := v, timer := None,
                 applied := applied s @ [(deadline, v)]\<rparr>
          else s\<lparr>now := now s + d\<rparr>)"

definition run :: "hooks \<Rightarrow> event list \<Rightarrow> hooks" where
  "run s es = foldl step s es"

text \<open>
  What the history must look like for an applied value: it was scheduled 250 ms before
  it was applied, and whatever was scheduled after it was scheduled no earlier than the
  moment it was applied.
\<close>

fun quiet_before :: "(nat \<times> jsstring) list \<Rightarrow> nat \<times> jsstring \<Rightarrow> bool" where
  "quiet_before [] a = False"
| "quiet_before (e # later) a =
     ((250 \<le> fst a \<and> e = (fst a - 250, snd a) \<and> list_all (\<lambda>l. fst a \<le> fst l) later)
      \<or> quiet_before later a)"

text \<open>
  The invariant of the state machine: nothing in the history lies in the future, every
  applied value satisfies \<open>quiet_before\<close>, \<^verbatim>\<open>debouncedQuery\<close> is the initial empty string or
  the value applied last, and a pending timeout belongs to the \<^verbatim>\<open>setTimeout\<close> call made last,
  250 ms before its deadline.
\<close>

definition history_ok :: "hooks \<Rightarrow> bool" where
  "history_ok s \<longleftrightarrow>
     list_all (\<lambda>e. fst e \<le> now s) (scheduled s) \<and>
     list_all (\<lambda>a. fst a \<le> now s) (applied s) \<and>
     list_all (quiet_before (scheduled s)) (applied s) \<and>
     debouncedQuery s = (if applied s = [] then [] else snd (last (applied s))) \<and>
     (case timer s of
        None \<Rightarrow> True
      | Some (deadline, v) \<Rightarrow>
          now s < deadline \<and> 250 \<le> deadline \<and> scheduled s \<noteq> [] \<and>
          last (scheduled s) = (deadline - 250, v))"

subsection \<open>Facts about rounding\<close>

text \<open>
  What the proofs need of \<open>round_double\<close>: a value with a significand below \<open>2 ^ 53\<close> and
  an exponent in range is returned unchanged; the sign is kept; a magnitude of at least
  the least subnormal does not round to 0; every result is on the grid; \<open>2 ^ 1024\<close>
  overflows.
\<close>

lemma pow2_pos [simp]: "0 < pow2 e"
  by (simp add: pow2_def)

lemma pow2_nonneg [simp]: "0 \<le> pow2 e"
  by (simp add: pow2_def)

lemma pow2_neq_0 [simp]: "pow2 e \<noteq> 0"
  by (simp add: pow2_def)

lemma pow2_not_le_0 [simp]: "\<not> pow2 e \<le> 0"
  by (simp add: pow2_def not_le)

lemma pow2_add: "pow2 (a + b) = pow2 a * pow2 b"
  by (simp add: pow2_def powr_add)

lemma pow2_mono: "a \<le> b \<Longrightarrow> pow2 a \<le> pow2 b"
  by (simp add: pow2_def)

lemma pow2_strict_mono: "a < b \<Longrightarrow> pow2 a < pow2 b"
  by (simp add: pow2_def)

lemma pow2_nat: "0 \<le> e \<Longrightarrow> pow2 e = 2 ^ nat e"
  by (simp add: pow2_def powr_real_of_int)

lemma pow2_0 [simp]: "pow2 0 = 1"
  by (simp add: pow2_def)

lemma pow2_diff_int:
  assumes "a \<le> b"
  shows "pow2 b / pow2 a = of_int (2 ^ nat (b - a))"
proof -
  have "pow2 b = pow2 (b - a) * pow2 a"
    using pow2_add [of "b - a" a] by simp
  moreover have "pow2 (b - a) = 2 ^ nat (b - a)"
    using assms by (simp add: pow2_nat)
  ultimately show ?thesis by simp
qed

lemma round_half_even_of_int [simp]: "round_half_even (of_int k) = k"
  by (simp add: round_half_even_def)

lemma round_half_even_bounds:
  "q - 1 / 2 \<le> of_int (round_half_even q)" "of_int (round_half_even q) \<le> q + 1 / 2"
  unfolding round_half_even_def Let_def by (auto; linarith)+

lemma ulp_exponent_ge: "- 1074 \<le> ulp_exponent x"
  by (simp add: ulp_exponent_def)

lemma binade:
  assumes "x \<noteq> 0"
  shows "pow2 \<lfloor>log 2 \<bar>x\<bar>\<rfloor> \<le> \<bar>x\<bar>" "\<bar>x\<bar> < pow2 (\<lfloor>log 2 \<bar>x\<bar>\<rfloor> + 1)"
proof -
  have "0 < \<bar>x\<bar>" using assms by simp
  then have "2 powr \<lfloor>log 2 \<bar>x\<bar>\<rfloor> \<le> \<bar>x\<bar> \<and> \<bar>x\<bar> < 2 powr (\<lfloor>log 2 \<bar>x\<bar>\<rfloor> + 1)"
    using floor_log_eq_powr_iff [of "\<bar>x\<bar>" 2 "\<lfloor>log 2 \<bar>x\<bar>\<rfloor>"] by simp
  then show "pow2 \<lfloor>log 2 \<bar>x\<bar>\<rfloor> \<le> \<bar>x\<bar>" "\<bar>x\<bar> < pow2 (\<lfloor>log 2 \<bar>x\<bar>\<rfloor> + 1)"
    by (simp_all add: pow2_def)
qed

lemma ulp_exponent_le:
  assumes "x \<noteq> 0" and "\<bar>x\<bar> < pow2 (e + 53)" and "- 1074 \<le> e"
  shows "ulp_exponent x \<le> e"
proof -
  have "pow2 \<lfloor>log 2 \<bar>x\<bar>\<rfloor> < pow2 (e + 53)"
    using binade(1) [OF assms(1)] assms(2) by linarith
  then have "\<lfloor>log 2 \<bar>x\<bar>\<rfloor> < e + 53"
    by (simp add: pow2_def)
  with assms(3) show ?thesis by (simp add: ulp_exponent_def)
qed

lemma pow2_ulp_exponent_le:
  assumes "pow2 (- 1074) \<le> \<bar>x\<bar>"
  shows "pow2 (ulp_exponent x) \<le> \<bar>x\<bar>"
proof -
  have nz: "x \<noteq> 0" using assms pow2_pos [of "- 1074"] by auto
  have "pow2 (\<lfloor>log 2 \<bar>x\<bar>\<rfloor> - 52) \<le> pow2 \<lfloor>log 2 \<bar>x\<bar>\<rfloor>"
    by (rule pow2_mono) simp
  also have "\<dots> \<le> \<bar>x\<bar>" by (rule binade(1) [OF nz])
  finally show ?thesis using assms
    by (simp add: ulp_exponent_def max_def)
qed

lemma round_double_exact:
  assumes m: "\<bar>m\<bar> < 2 ^ 53" and e: "- 1074 \<le> e"
    and lt: "\<bar>of_int m * pow2 e\<bar> < pow2 1024"
  shows "round_double (of_int m * pow2 e) = Num (of_int m * pow2 e)"
proof (cases "m = 0")
  case True
  then show ?thesis by (simp add: round_double_def)
next
  case False
  define x where "x = of_int m * pow2 e"
  have nz: "x \<noteq> 0" using False by (simp add: x_def)
  have "\<bar>x\<bar> = of_int \<bar>m\<bar> * pow2 e"
    by (simp add: x_def abs_mult)
  also have "\<dots> < 2 ^ 53 * pow2 e"
    using m by (intro mult_strict_right_mono) (simp_all flip: of_int_less_iff)
  also have "\<dots> = pow2 (e + 53)"
    by (simp add: pow2_add pow2_nat)
  finally have "ulp_exponent x \<le> e"
    using nz e by (intro ulp_exponent_le)
  then have d: "pow2 e / pow2 (ulp_exponent x) = of_int (2 ^ nat (e - ulp_exponent x))"
    by (rule pow2_diff_int)
  have "x / pow2 (ulp_exponent x) = of_int m * (pow2 e / pow2 (ulp_exponent x))"
    by (simp add: x_def)
  also have "\<dots> = of_int (m * 2 ^ nat (e - ulp_exponent x))"
    unfolding d by simp
  finally have "x / pow2 (ulp_exponent x) = of_int (m * 2 ^ nat (e - ulp_exponent x))" .
  then have "of_int (round_half_even (x / pow2 (ulp_exponent x))) * pow2 (ulp_exponent x) = x"
    by (simp only: round_half_even_of_int) (simp add: field_simps)
  with nz lt show ?thesis
    unfolding x_def [symmetric] by (simp add: round_double_def Let_def)
qed

lemma round_double_of_int:
  assumes "\<bar>k\<bar> < 2 ^ 53"
  shows "round_double (of_int k) = Num (of_int k)"
proof -
  have "\<bar>of_int k * pow2 0\<bar> < pow2 1024"
  proof -
    have "\<bar>of_int k :: real\<bar> < 2 ^ 53"
      using assms by (simp flip: of_int_abs of_int_less_iff)
    also have "\<dots> \<le> pow2 1024" by (simp add: pow2_nat)
    finally show ?thesis by simp
  qed
  from round_double_exact [OF assms _ this] show ?thesis by simp
qed

lemma round_double_half:
  assumes "\<bar>k\<bar> < 2 ^ 53"
  shows "round_double (of_int k / 2) = Num (of_int k / 2)"
proof -
  have h: "pow2 (- 1) = 1 / 2" by (simp add: pow2_def powr_minus_divide)
  have "\<bar>of_int k * pow2 (- 1)\<bar> < pow2 1024"
  proof -
    have "\<bar>of_int k :: real\<bar> < 2 ^ 53"
      using assms by (simp flip: of_int_abs of_int_less_iff)
    then have "\<bar>of_int k * pow2 (- 1)\<bar> < 2 ^ 53" by (simp add: h abs_mult)
    also have "\<dots> \<le> pow2 1024" by (simp add: pow2_nat)
    finally show ?thesis .
  qed
  from round_double_exact [OF assms _ this] show ?thesis by (simp add: h)
qed

lemma round_double_cases:
  obtains "round_double x = Num 0" "x = 0"
  | m where "x \<noteq> 0" "m = round_half_even (x / pow2 (ulp_exponent x))"
      "round_double x = Num (of_int m * pow2 (ulp_exponent x))"
  | "0 < x" "round_double x = PosInfinity"
  | "x < 0" "round_double x = NegInfinity"
proof (cases "x = 0")
  case True
  then show ?thesis using that(1) by (simp add: round_double_def)
next
  case nz: False
  let ?y = "of_int (round_half_even (x / pow2 (ulp_exponent x))) * pow2 (ulp_exponent x)"
  show ?thesis
  proof (cases "pow2 1024 \<le> \<bar>?y\<bar>")
    case False
    with nz have "round_double x = Num ?y" by (simp add: round_double_def Let_def)
    with nz show ?thesis using that(2) by blast
  next
    case big: True
    show ?thesis
    proof (cases "0 < x")
      case True
      with nz big have "round_double x = PosInfinity" by (simp add: round_double_def Let_def)
      with True show ?thesis using that(3) by blast
    next
      case False
      with nz have neg: "x < 0" by simp
      with nz big have "round_double x = NegInfinity" by (simp add: round_double_def Let_def)
      with neg show ?thesis using that(4) by blast
    qed
  qed
qed

lemma round_double_nonneg:
  assumes "0 \<le> x"
  shows "round_double x = PosInfinity \<or> (\<exists>y\<ge>0. round_double x = Num y)"
proof (cases x rule: round_double_cases)
  case (2 m)
  have "0 \<le> x / pow2 (ulp_exponent x)" using assms by simp
  with round_half_even_bounds(1) [of "x / pow2 (ulp_exponent x)"]
  have "- 1 / 2 \<le> (of_int m :: real)" unfolding 2(2) by linarith
  then have "0 \<le> m" by linarith
  then have "0 \<le> of_int m * pow2 (ulp_exponent x)" by simp
  with 2(3) show ?thesis by blast
qed (use assms in auto)

lemma round_double_nonpos:
  assumes "x \<le> 0"
  shows "round_double x = NegInfinity \<or> (\<exists>y\<le>0. round_double x = Num y)"
proof (cases x rule: round_double_cases)
  case (2 m)
  have "x / pow2 (ulp_exponent x) \<le> 0" using assms by (simp add: divide_nonpos_pos)
  with round_half_even_bounds(2) [of "x / pow2 (ulp_exponent x)"]
  have "(of_int m :: real) \<le> 1 / 2" unfolding 2(2) by linarith
  then have "m \<le> 0" by linarith
  then have "of_int m * pow2 (ulp_exponent x) \<le> 0" by (simp add: mult_nonpos_nonneg)
  with 2(3) show ?thesis by blast
qed (use assms in auto)

lemma round_double_pos:
  assumes "pow2 (- 1074) \<le> x"
  shows "num_gt0 (round_double x)"
proof -
  have pos: "0 < x" using assms pow2_pos [of "- 1074"] by linarith
  show ?thesis
  proof (cases x rule: round_double_cases)
    case (2 m)
    have "pow2 (ulp_exponent x) \<le> x"
      using pow2_ulp_exponent_le [of x] assms pos by simp
    then have "1 \<le> x / pow2 (ulp_exponent x)" by (simp add: le_divide_eq)
    with round_half_even_bounds(1) [of "x / pow2 (ulp_exponent x)"]
    have "1 / 2 \<le> (of_int m :: real)" unfolding 2(2) by linarith
    then have "0 < m" by linarith
    then have "0 < of_int m * pow2 (ulp_exponent x)" by simp
    with 2(3) show ?thesis by (simp add: num_gt0_def)
  qed (use pos in \<open>auto simp: num_gt0_def\<close>)
qed

lemma round_double_on_grid: "on_grid (round_double x)"
proof (cases x rule: round_double_cases)
  case 1
  have "(0::real) = of_int 0 * pow2 (- 1074)" by simp
  with 1 show ?thesis unfolding on_grid_def by (auto simp del: of_int_0)
next
  case (2 m)
  have "pow2 (ulp_exponent x) / pow2 (- 1074) = of_int (2 ^ nat (ulp_exponent x - (- 1074)))"
    by (rule pow2_diff_int) (rule ulp_exponent_ge)
  then have "pow2 (ulp_exponent x) = of_int (2 ^ nat (ulp_exponent x + 1074)) * pow2 (- 1074)"
    by (simp add: field_simps)
  then have "of_int m * pow2 (ulp_exponent x) =
      of_int (m * 2 ^ nat (ulp_exponent x + 1074)) * pow2 (- 1074)"
    by simp
  with 2(3) show ?thesis unfolding on_grid_def by (auto simp del: of_int_mult of_int_power)
qed (simp_all add: on_grid_def)

lemma grid_gap:
  assumes "x = of_int j * pow2 (- 1074)" and "y = of_int k * pow2 (- 1074)" and "x < y"
  shows "pow2 (- 1074) \<le> y - x"
proof -
  from assms have "of_int j * pow2 (- 1074) < of_int k * pow2 (- 1074)" by simp
  then have "j < k" by (simp add: mult_less_cancel_right)
  then have "1 \<le> k - j" by simp
  then have "(1::real) \<le> of_int (k - j)" by (simp only: of_int_1_le_iff)
  then have "1 * pow2 (- 1074) \<le> of_int (k - j) * pow2 (- 1074)"
    by (intro mult_right_mono) simp_all
  with assms show ?thesis by (simp add: algebra_simps)
qed

lemma floor_log_pow2: "\<lfloor>log 2 \<bar>pow2 e\<bar>\<rfloor> = e"
proof -
  have "log 2 (2 powr of_int e) = of_int e"
    by (rule log_powr_cancel) simp_all
  then have "log 2 \<bar>pow2 e\<bar> = of_int e"
    by (simp only: pow2_def abs_of_nonneg [OF powr_ge_zero])
  then show ?thesis by (simp only: floor_of_int)
qed

lemma round_double_overflow: "round_double (pow2 1024) = PosInfinity"
proof -
  have e: "ulp_exponent (pow2 1024) = 972"
    by (simp only: ulp_exponent_def floor_log_pow2)
  have "pow2 1024 / pow2 972 = of_int (2 ^ nat (1024 - 972))"
    by (rule pow2_diff_int) simp
  then have "of_int (round_half_even (pow2 1024 / pow2 972)) * pow2 972 = pow2 1024"
    by (simp only: round_half_even_of_int) (simp add: field_simps)
  then show ?thesis by (simp add: round_double_def e)
qed

lemma desc_key_inj: "desc_key a = desc_key b \<longleftrightarrow> a = b"
  by (cases a; cases b) (simp_all add: desc_key_def)

lemma num_ge_desc_key:
  assumes "a \<noteq> NaN" and "b \<noteq> NaN"
  shows "num_ge a b \<longleftrightarrow> desc_key a \<le> desc_key b"
  using assms by (cases a; cases b) (simp_all add: desc_key_def)

lemma on_grid_NaN [simp]: "\<not> on_grid NaN"
  by (simp add: on_grid_def)

lemma num_gt0_sub_grid:
  assumes "on_grid a" and "on_grid b"
  shows "num_gt0 (num_sub b a) \<longleftrightarrow> desc_key b < desc_key a"
proof (cases a)
  case a: (Num x)
  show ?thesis
  proof (cases b)
    case b: (Num y)
    from assms a b obtain j k :: int
      where x: "x = of_int j * pow2 (- 1074)" and y: "y = of_int k * pow2 (- 1074)"
      by (auto simp: on_grid_def)
    have "num_gt0 (round_double (y - x)) \<longleftrightarrow> x < y"
    proof
      assume "x < y"
      then have "pow2 (- 1074) \<le> y - x" by (rule grid_gap [OF x y])
      then show "num_gt0 (round_double (y - x))" by (rule round_double_pos)
    next
      assume g: "num_gt0 (round_double (y - x))"
      show "x < y"
      proof (rule ccontr)
        assume "\<not> x < y"
        then have "y - x \<le> 0" by simp
        from round_double_nonpos [OF this] g show False by (auto simp: num_gt0_def)
      qed
    qed
    with a b show ?thesis by (simp add: num_sub_def desc_key_def)
  qed (use a in \<open>simp_all add: num_sub_def desc_key_def num_gt0_def\<close>)
qed (use assms in \<open>cases b; simp add: num_sub_def desc_key_def num_gt0_def\<close>)+

lemma round_double_numeral:
  assumes "(numeral n :: int) < 2 ^ 53"
  shows "round_double (numeral n) = Num (numeral n)"
  using round_double_of_int [of "numeral n"] assms by simp

lemma round_double_numeral_half:
  assumes "(numeral n :: int) < 2 ^ 53"
  shows "round_double (numeral n / 2) = Num (numeral n / 2)"
  using round_double_half [of "numeral n"] assms by simp

lemma round_double_minus_one: "round_double (- 1) = Num (- 1)"
  using round_double_of_int [of "- 1"] by simp

lemma pow2_double: "pow2 e + pow2 e = pow2 (e + 1)"
  by (simp add: pow2_add pow2_nat)

lemma round_double_pow2:
  assumes "- 1074 \<le> e" and "e < 1024"
  shows "round_double (pow2 e) = Num (pow2 e)"
proof -
  have "\<bar>of_int 1 * pow2 e\<bar> < pow2 1024"
    using assms(2) by (simp add: pow2_strict_mono)
  from round_double_exact [OF _ assms(1) this] show ?thesis by simp
qed

subsection \<open>Facts about averageRating\<close>

lemma averageRating_map_rating:
  "averageRating rs =
     (if map rating rs = [] then Num 0
      else num_div_length (foldl num_add (Num 0) (map rating rs)) (length (map rating rs)))"
  by (simp add: averageRating_def foldl_map)

lemma num_div_length_grid:
  assumes "0 < n"
  shows "num_div_length v n = NaN \<or> on_grid (num_div_length v n)"
proof (cases v)
  case (Num x)
  with assms show ?thesis using round_double_on_grid [of "x / real n"] by simp
qed (simp_all add: on_grid_def)

lemma averageRating_grid: "averageRating rs = NaN \<or> on_grid (averageRating rs)"
proof (cases "rs = []")
  case True
  have "on_grid (round_double 0)" by (rule round_double_on_grid)
  with True show ?thesis by (simp add: averageRating_def round_double_def)
next
  case False
  then show ?thesis
    using num_div_length_grid [of "length rs"] by (simp add: averageRating_def)
qed

lemma num_ge_zero_iff: "num_ge v (Num 0) \<longleftrightarrow> v = PosInfinity \<or> (\<exists>x\<ge>0. v = Num x)"
  by (cases v) auto

lemma round_double_ge_zero:
  assumes "0 \<le> x"
  shows "num_ge (round_double x) (Num 0)"
  using round_double_nonneg [OF assms] by (auto simp: num_ge_zero_iff)

lemma num_add_ge_zero:
  assumes "num_ge a (Num 0)" and "num_ge b (Num 0)"
  shows "num_ge (num_add a b) (Num 0)"
proof (cases a)
  case a: (Num x)
  show ?thesis
  proof (cases b)
    case (Num y)
    with a assms show ?thesis by (simp add: round_double_ge_zero)
  qed (use a assms in simp_all)
qed (use assms in \<open>cases b; simp\<close>)+

lemma foldl_num_add_ge_zero:
  assumes "num_ge a (Num 0)" and "\<forall>v\<in>set vs. num_ge v (Num 0)"
  shows "num_ge (foldl num_add a vs) (Num 0)"
  using assms by (induction vs arbitrary: a) (simp_all add: num_add_ge_zero)

lemma num_div_length_ge_zero:
  assumes "num_ge v (Num 0)" and "0 < n"
  shows "num_ge (num_div_length v n) (Num 0)"
  using assms by (cases v) (simp_all add: round_double_ge_zero)

lemma averageRating_ge_zero:
  assumes "\<forall>r\<in>set rs. num_ge (rating r) (Num 0)"
  shows "num_ge (averageRating rs) (Num 0)"
proof (cases "rs = []")
  case True
  then show ?thesis by (simp add: averageRating_def)
next
  case False
  have "num_ge (foldl num_add (Num 0) (map rating rs)) (Num 0)"
    using assms by (intro foldl_num_add_ge_zero) simp_all
  then have "num_ge (num_div_length (foldl num_add (Num 0) (map rating rs)) (length rs)) (Num 0)"
    using False by (intro num_div_length_ge_zero) simp_all
  with False show ?thesis by (simp add: averageRating_map_rating)
qed

text \<open>
  Sums of integers stay exact as long as they stay below \<open>2 ^ 53\<close> in absolute value.
\<close>

lemma foldl_num_add_ints:
  assumes "\<bar>a\<bar> + sum_list (map abs ks) < 2 ^ 53"
  shows "foldl num_add (Num (of_int a)) (map (\<lambda>k. Num (of_int k)) ks) =
         Num (of_int (a + sum_list ks))"
  using assms
proof (induction ks arbitrary: a)
  case Nil
  then show ?case by simp
next
  case (Cons k ks)
  have nonneg: "0 \<le> sum_list (map abs ks)"
    by (rule sum_list_nonneg) auto
  from Cons.prems have bound: "\<bar>a\<bar> + (\<bar>k\<bar> + sum_list (map abs ks)) < 2 ^ 53"
    by simp
  have small: "\<bar>a + k\<bar> < 2 ^ 53"
    using bound nonneg by linarith
  have "num_add (Num (of_int a)) (Num (of_int k)) = Num (of_int (a + k))"
    using round_double_of_int [OF small] by simp
  moreover have "\<bar>a + k\<bar> + sum_list (map abs ks) < 2 ^ 53"
    using bound by linarith
  ultimately show ?case
    using Cons.IH [of "a + k"] by (simp add: add.assoc)
qed

lemma averageRating_ints:
  assumes "map rating rs = map (\<lambda>k. Num (of_int k)) ks"
    and "sum_list (map abs ks) < 2 ^ 53"
  shows "averageRating rs =
     (if rs = [] then Num 0 else round_double (of_int (sum_list ks) / real (length rs)))"
proof (cases "rs = []")
  case True
  then show ?thesis by (simp add: averageRating_def)
next
  case False
  have len: "length ks = length rs"
    using assms(1) by (metis length_map)
  have "foldl num_add (Num (of_int 0)) (map (\<lambda>k. Num (of_int k)) ks) =
        Num (of_int (0 + sum_list ks))"
    using assms(2) by (intro foldl_num_add_ints) simp
  then have "foldl num_add (Num 0) (map rating rs) = Num (of_int (sum_list ks))"
    by (simp add: assms(1))
  with False show ?thesis by (simp add: averageRating_map_rating)
qed

lemma huge_sum: "averageRating huge_reviews = PosInfinity"
proof -
  have a: "round_double (pow2 1023) = Num (pow2 1023)"
    using round_double_pow2 [of 1023] by simp
  have b: "round_double (2 * pow2 1023) = PosInfinity"
    using round_double_overflow pow2_double [of 1023] by simp
  show ?thesis
    by (simp add: averageRating_def huge_reviews_def a b)
qed

text \<open>
  The sum of the two ratings of \<open>huge_reviews\<close> overflows, so their average is not their
  arithmetic mean, which is \<open>pow2 1023\<close>.
\<close>

theorem averageRating_mean_counterexample:
  "map rating huge_reviews = [Num (pow2 1023), Num (pow2 1023)] \<and>
   averageRating huge_reviews = PosInfinity \<and>
   averageRating huge_reviews \<noteq> Num ((pow2 1023 + pow2 1023) / 2)"
  by (simp add: huge_sum) (simp add: huge_reviews_def)

text \<open>
  C1 (amended). For every list of reviews, \<open>averageRating\<close> returns 0 when the list is
  empty, and otherwise the quotient, rounded, of the sum of the rating fields, added
  from left to right and rounded at every step, by the number of reviews. When the
  ratings are integers whose absolute values sum to less than \<open>2 ^ 53\<close>, this is the
  arithmetic mean (the sum of the rating fields divided by the number of reviews)
  rounded to the nearest double, hence the mean itself when that is an integer or a
  half-integer below \<open>2 ^ 53\<close> in absolute value.
\<close>

theorem averageRating_is_mean:
  "averageRating [] = Num 0 \<and>
   (rs \<noteq> [] \<longrightarrow>
      averageRating rs =
        num_div_length (foldl num_add (Num 0) (map rating rs)) (length rs)) \<and>
   (rs \<noteq> [] \<and> map rating rs = map (\<lambda>k. Num (of_int k)) ks \<and>
    sum_list (map abs ks) < 2 ^ 53 \<longrightarrow>
      averageRating rs = round_double (of_int (sum_list ks) / real (length rs)) \<and>
      (\<forall>j. \<bar>j\<bar> < 2 ^ 53 \<and> (of_int (sum_list ks) / real (length rs) = of_int j \<or>
                            of_int (sum_list ks) / real (length rs) = of_int j / 2) \<longrightarrow>
           averageRating rs = Num (of_int (sum_list ks) / real (length rs))))"
proof (intro conjI impI allI)
  show "averageRating [] = Num 0" by (simp add: averageRating_def)
next
  assume "rs \<noteq> []"
  then show "averageRating rs =
      num_div_length (foldl num_add (Num 0) (map rating rs)) (length rs)"
    by (simp add: averageRating_map_rating)
next
  assume a: "rs \<noteq> [] \<and> map rating rs = map (\<lambda>k. Num (of_int k)) ks \<and>
    sum_list (map abs ks) < 2 ^ 53"
  then show r: "averageRating rs = round_double (of_int (sum_list ks) / real (length rs))"
    using averageRating_ints [of rs ks] by simp
  fix j :: int
  assume "\<bar>j\<bar> < 2 ^ 53 \<and> (of_int (sum_list ks) / real (length rs) = of_int j \<or>
                            of_int (sum_list ks) / real (length rs) = of_int j / 2)"
  then consider "\<bar>j\<bar> < 2 ^ 53" "of_int (sum_list ks) / real (length rs) = of_int j"
    | "\<bar>j\<bar> < 2 ^ 53" "of_int (sum_list ks) / real (length rs) = of_int j / 2"
    by blast
  then show "averageRating rs = Num (of_int (sum_list ks) / real (length rs))"
  proof cases
    case 1
    show ?thesis unfolding r 1(2) by (rule round_double_of_int [OF 1(1)])
  next
    case 2
    show ?thesis unfolding r 2(2) by (rule round_double_half [OF 2(1)])
  qed
qed

subsection \<open>Facts about strings\<close>

lemma startsWith_iff: "startsWith s q \<longleftrightarrow> (\<exists>after. s = q @ after)"
  by (induction s q rule: startsWith.induct) auto

lemma js_includes_iff: "js_includes s q \<longleftrightarrow> is_substring q s"
proof (induction s)
  case Nil
  show ?case by (auto simp: startsWith_iff is_substring_def)
next
  case (Cons d s)
  show ?case
  proof
    assume "js_includes (d # s) q"
    then consider "startsWith (d # s) q" | "js_includes s q" by auto
    then show "is_substring q (d # s)"
    proof cases
      case 1
      then obtain a where "d # s = q @ a" by (auto simp: startsWith_iff)
      then have "d # s = [] @ q @ a" by simp
      then show ?thesis unfolding is_substring_def by blast
    next
      case 2
      then obtain b a where "s = b @ q @ a" using Cons.IH by (auto simp: is_substring_def)
      then have "d # s = (d # b) @ q @ a" by simp
      then show ?thesis unfolding is_substring_def by blast
    qed
  next
    assume "is_substring q (d # s)"
    then obtain b a where eq: "d # s = b @ q @ a" by (auto simp: is_substring_def)
    show "js_includes (d # s) q"
    proof (cases b)
      case Nil
      with eq have "startsWith (d # s) q" by (auto simp: startsWith_iff)
      then show ?thesis by simp
    next
      case (Cons b0 bs)
      with eq have "s = bs @ q @ a" by simp
      then have "is_substring q s" unfolding is_substring_def by blast
      then show ?thesis using Cons.IH by simp
    qed
  qed
qed

lemma toLowerCase_latin1:
  assumes "list_all isLatin1 s"
  shows "toLowerCase unicode s = map lowerUnit s"
  using assms by (simp add: toLowerCase_def)

lemma toLowerCase_Nil [simp]: "toLowerCase unicode [] = []"
  by (simp add: toLowerCase_def)

lemma toLowerCase_Nil_iff:
  assumes "\<forall>s. s \<noteq> [] \<longrightarrow> unicode s \<noteq> []"
  shows "toLowerCase unicode s = [] \<longleftrightarrow> s = []"
proof (cases "list_all isLatin1 s")
  case True
  then show ?thesis by (simp add: toLowerCase_def)
next
  case False
  then have ne: "s \<noteq> []" by auto
  with assms have "unicode s \<noteq> []" by blast
  with False ne show ?thesis by (simp add: toLowerCase_def)
qed

lemma cased_sample_nonempty: "\<forall>s. s \<noteq> [] \<longrightarrow> cased_sample s \<noteq> []"
  by (simp add: cased_sample_def)

lemma toLowerCase_todas: "toLowerCase unicode (js ''todas'') = js ''todas''"
  by (simp add: toLowerCase_def js_def isLatin1_def lowerUnit_def)

lemma toLowerCase_TODAS: "toLowerCase unicode (js ''TODAS'') = js ''todas''"
  by (simp add: toLowerCase_def js_def isLatin1_def lowerUnit_def)

lemma toLowerCase_hidratante: "toLowerCase unicode (js ''hidratante'') = js ''hidratante''"
  by (simp add: toLowerCase_def js_def isLatin1_def lowerUnit_def)

lemma trim_empty: "trim (js '''') = []"
  by (simp add: trim_def js_def)

lemma trim_padded_query: "toLowerCase unicode (trim (js '' GLYC '')) = js ''glyc''"
  by (simp add: trim_def js_def isWhiteSpace_def toLowerCase_def isLatin1_def lowerUnit_def)

lemma trim_blank_query: "trim (js ''  '') = []"
  by (simp add: trim_def js_def isWhiteSpace_def)

lemma glyc_in_glycerin: "js_includes (toLowerCase unicode (js ''Glycerin'')) (js ''glyc'')"
  by (simp add: js_def toLowerCase_def isLatin1_def lowerUnit_def)

lemma kelvin_query: "toLowerCase cased_sample (trim [0x212A]) = js ''k''"
  by (simp add: trim_def isWhiteSpace_def toLowerCase_def isLatin1_def cased_sample_def js_def)

lemma k_in_pureskin: "js_includes (toLowerCase unicode (js ''PureSkin'')) (js ''k'')"
  by (simp add: js_def toLowerCase_def isLatin1_def lowerUnit_def)

subsection \<open>Facts about the seed catalog\<close>

lemma seed_ids:
  "pid p1 = js ''p1''" "pid p2 = js ''p2''" "pid p3 = js ''p3''"
  "pid p4 = js ''p4''" "pid p5 = js ''p5''" "pid p6 = js ''p6''"
  by (simp_all add: p1_def p2_def p3_def p4_def p5_def p6_def)

lemma seed_categories:
  "category p1 = js ''hidratante''" "category p2 = js ''protetor solar''"
  "category p3 = js ''limpeza''" "category p4 = js ''anti-idade''"
  "category p5 = js ''hidratante''" "category p6 = js ''tratamento''"
  by (simp_all add: p1_def p2_def p3_def p4_def p5_def p6_def)

lemma seed_lower_categories:
  "toLowerCase unicode (js ''hidratante'') = js ''hidratante''"
  "toLowerCase unicode (js ''protetor solar'') = js ''protetor solar''"
  "toLowerCase unicode (js ''limpeza'') = js ''limpeza''"
  "toLowerCase unicode (js ''anti-idade'') = js ''anti-idade''"
  "toLowerCase unicode (js ''tratamento'') = js ''tratamento''"
  by (simp_all add: toLowerCase_def js_def isLatin1_def lowerUnit_def)

lemma seed_ratings:
  "map rating (reviews p1) = [Num 5, Num 4]" "map rating (reviews p2) = [Num 4, Num 3]"
  "map rating (reviews p3) = [Num 4, Num 2]" "map rating (reviews p4) = [Num 5, Num 4]"
  "map rating (reviews p5) = [Num 4, Num 5]" "map rating (reviews p6) = [Num 3, Num 4]"
  by (simp_all add: p1_def p2_def p3_def p4_def p5_def p6_def)

lemma seed_averages:
  "averageRating (reviews p1) = Num (9 / 2)" "averageRating (reviews p2) = Num (7 / 2)"
  "averageRating (reviews p3) = Num 3" "averageRating (reviews p4) = Num (9 / 2)"
  "averageRating (reviews p5) = Num (9 / 2)" "averageRating (reviews p6) = Num (7 / 2)"
  by (simp_all add: averageRating_map_rating seed_ratings round_double_numeral
      round_double_numeral_half)

lemma seed_brand_p3: "brand p3 = js ''PureSkin''"
  by (simp add: p3_def)

lemma seed_p1_ingredients:
  "map ing_name (inci p1) =
     [js ''Aqua'', js ''Glycerin'', js ''Sodium Hyaluronate (Hyaluronic Acid)'',
      js ''Caprylic/Capric Triglyceride'', js ''Phenoxyethanol'', js ''Parfum (Fragrance)'']"
  by (simp add: p1_def)

lemma ratings_ge_zero_iff:
  fixes rs :: "Review list"
  shows "(\<forall>r\<in>set rs. num_ge (rating r) (Num 0)) \<longleftrightarrow>
         list_all (\<lambda>v. num_ge v (Num 0)) (map rating rs)"
  by (simp add: list_all_iff)

lemma seed_ratings_ge_zero:
  "\<forall>p\<in>set MOCK_PRODUCTS. \<forall>r\<in>set (reviews p). num_ge (rating r) (Num 0)"
  by (simp add: MOCK_PRODUCTS_def ratings_ge_zero_iff seed_ratings)

lemma seed_ids_distinct: "distinct (map pid MOCK_PRODUCTS)"
  by (simp add: MOCK_PRODUCTS_def seed_ids js_def)

lemma matchesText_empty: "matchesText unicode [] p"
  by (simp add: matchesText_def)

lemma matchesCat_hidratante:
  "matchesCat unicode (js ''hidratante'') p1"
  "\<not> matchesCat unicode (js ''hidratante'') p2"
  "\<not> matchesCat unicode (js ''hidratante'') p3"
  "\<not> matchesCat unicode (js ''hidratante'') p4"
  "matchesCat unicode (js ''hidratante'') p5"
  "\<not> matchesCat unicode (js ''hidratante'') p6"
  by (simp_all add: matchesCat_def seed_categories seed_lower_categories) (simp_all add: js_def)

lemma load_seed_catalog:
  "fst (load_catalog MOCK_PRODUCTS) = 6" "fresh (snd (load_catalog MOCK_PRODUCTS)) = 7"
  by (simp_all add: load_catalog_def MOCK_PRODUCTS_def)

text \<open>\<open>averageRating\<close> on the seed data: integer ratings, and a mean that is a half-integer.\<close>

theorem averageRating_is_mean_witness:
  "averageRating [] = Num 0 \<and> averageRating (reviews p1) = Num (9 / 2)"
proof -
  have m: "map rating (reviews p1) = map (\<lambda>k. Num (of_int k)) [5, 4]"
    by (simp add: seed_ratings)
  have len: "length (reviews p1) = 2"
    using arg_cong [OF seed_ratings(1), of length] by simp
  have ne: "reviews p1 \<noteq> []" using len by auto
  have s: "sum_list (map abs [5, 4 :: int]) < 2 ^ 53" by simp
  have j: "\<bar>9 :: int\<bar> < 2 ^ 53 \<and>
      (of_int (sum_list [5, 4]) / real (length (reviews p1)) = of_int 9 \<or>
       of_int (sum_list [5, 4]) / real (length (reviews p1)) = of_int 9 / 2)"
    by (simp add: len)
  from averageRating_is_mean [of "reviews p1" "[5, 4]"] ne m s j
  have "averageRating [] = Num 0 \<and>
        averageRating (reviews p1) = Num (of_int (sum_list [5, 4]) / real (length (reviews p1)))"
    by blast
  then show ?thesis by (simp add: len)
qed

subsection \<open>The text predicate\<close>

text \<open>
  C2. For every product and every applied query string: if the query is empty after
  trimming, the text predicate holds; otherwise it holds if and only if the trimmed,
  lowercased query is a substring of the lowercased name, brand or category of the
  product, or of the lowercased name of at least one of its ingredients. In particular
  a query that is empty after trimming matches every product. This holds whatever the
  case table \<open>unicode\<close> of the engine is, as long as it lowers no string but the empty
  one to the empty string.
\<close>

theorem text_predicate:
  assumes "\<forall>s. s \<noteq> [] \<longrightarrow> unicode s \<noteq> []"
  shows "matchesText unicode (toLowerCase unicode (trim qry)) p \<longleftrightarrow>
     (if trim qry = [] then True
      else is_substring (toLowerCase unicode (trim qry)) (toLowerCase unicode (name p)) \<or>
           is_substring (toLowerCase unicode (trim qry)) (toLowerCase unicode (brand p)) \<or>
           is_substring (toLowerCase unicode (trim qry)) (toLowerCase unicode (category p)) \<or>
           (\<exists>ing\<in>set (inci p).
              is_substring (toLowerCase unicode (trim qry))
                (toLowerCase unicode (ing_name ing))))"
  by (simp add: matchesText_def toLowerCase_Nil_iff [OF assms] js_includes_iff list_ex_iff)

text \<open>
  Three instances: a padded ASCII query that matches an ingredient of \<open>p1\<close>, the Kelvin
  sign as the query, which the sample table lowers to \<open>k\<close> and which therefore matches
  the brand of \<open>p3\<close>, and a blank query.
\<close>

theorem text_predicate_witness:
  "trim (js '' GLYC '') \<noteq> [] \<and>
   matchesText cased_sample (toLowerCase cased_sample (trim (js '' GLYC ''))) p1 \<and>
   matchesText cased_sample (toLowerCase cased_sample (trim [0x212A])) p3 \<and>
   matchesText cased_sample (toLowerCase cased_sample (trim (js ''  ''))) p2"
proof -
  note tp = text_predicate [OF cased_sample_nonempty]
  have ne: "trim (js '' GLYC '') \<noteq> []"
    using trim_padded_query [of cased_sample] toLowerCase_Nil [of cased_sample]
    by (auto simp: js_def)
  have "js ''Glycerin'' \<in> set (map ing_name (inci p1))"
    unfolding seed_p1_ingredients by simp
  then obtain ing where ing: "ing \<in> set (inci p1)" "ing_name ing = js ''Glycerin''"
    by auto
  have "is_substring (toLowerCase cased_sample (trim (js '' GLYC '')))
          (toLowerCase cased_sample (ing_name ing))"
    unfolding trim_padded_query ing(2) js_includes_iff [symmetric] by (rule glyc_in_glycerin)
  with ing(1) have "\<exists>i\<in>set (inci p1).
      is_substring (toLowerCase cased_sample (trim (js '' GLYC '')))
        (toLowerCase cased_sample (ing_name i))"
    by blast
  then have a: "matchesText cased_sample (toLowerCase cased_sample (trim (js '' GLYC ''))) p1"
    using tp [of "js '' GLYC ''" p1] ne by simp
  have kne: "trim [0x212A] \<noteq> []"
    using kelvin_query toLowerCase_Nil [of cased_sample] by (auto simp: js_def)
  have "is_substring (toLowerCase cased_sample (trim [0x212A]))
          (toLowerCase cased_sample (brand p3))"
    unfolding kelvin_query seed_brand_p3 js_includes_iff [symmetric] by (rule k_in_pureskin)
  then have b: "matchesText cased_sample (toLowerCase cased_sample (trim [0x212A])) p3"
    using tp [of "[0x212A]" p3] kne by simp
  have c: "matchesText cased_sample (toLowerCase cased_sample (trim (js ''  ''))) p2"
    using tp [of "js ''  ''" p2] trim_blank_query by simp
  from ne a b c show ?thesis by simp
qed

subsection \<open>Sorting by rating\<close>

text \<open>
  An average is NaN or on the grid. On products whose average is not NaN the comparator
  of \<open>filtered\<close> is above 0 exactly when its second argument has the larger average (a
  difference of two different doubles does not round to 0, and the difference of two
  equal infinities, NaN, is read as 0), so the model of \<^verbatim>\<open>sort\<close> is there the library's
  stable insertion sort on the key \<open>desc_key\<close> of the average.
\<close>

lemma num_gt0_byRatingDesc:
  assumes "averageRating (reviews a) \<noteq> NaN" and "averageRating (reviews b) \<noteq> NaN"
  shows "num_gt0 (byRatingDesc a b) \<longleftrightarrow> avg_key b < avg_key a"
proof -
  have "on_grid (averageRating (reviews a))" "on_grid (averageRating (reviews b))"
    using assms averageRating_grid by blast+
  then show ?thesis
    unfolding byRatingDesc_def avg_key_def by (rule num_gt0_sub_grid)
qed

lemma insert_cmp_insort_key:
  assumes "averageRating (reviews x) \<noteq> NaN"
    and "\<forall>y\<in>set ys. averageRating (reviews y) \<noteq> NaN"
  shows "insert_cmp byRatingDesc x ys = insort_key avg_key x ys"
  using assms by (induction ys) (auto simp: num_gt0_byRatingDesc)

lemma array_sort_sort_key:
  assumes "\<forall>p\<in>set xs. averageRating (reviews p) \<noteq> NaN"
  shows "array_sort byRatingDesc xs = sort_key avg_key xs"
  using assms
proof (induction xs)
  case Nil
  show ?case by (simp add: array_sort_def)
next
  case (Cons x xs)
  then have "array_sort byRatingDesc xs = sort_key avg_key xs" by simp
  then have "array_sort byRatingDesc (x # xs) = insert_cmp byRatingDesc x (sort_key avg_key xs)"
    by (simp add: array_sort_def)
  also have "\<dots> = insort_key avg_key x (sort_key avg_key xs)"
    using Cons.prems by (intro insert_cmp_insort_key) simp_all
  finally show ?case by simp
qed

lemma set_insert_cmp: "set (insert_cmp cmp x ys) = insert x (set ys)"
  by (induction ys) auto

lemma set_array_sort: "set (array_sort cmp xs) = set xs"
  unfolding array_sort_def by (induction xs) (simp_all add: set_insert_cmp)

lemma matchesRating_not_NaN: "matchesRating m p \<Longrightarrow> averageRating (reviews p) \<noteq> NaN"
  by (auto simp: matchesRating_def)

lemma sorted_array_sort_byRatingDesc:
  assumes "\<forall>p\<in>set xs. averageRating (reviews p) \<noteq> NaN"
  shows "sorted_wrt (\<lambda>a b. num_ge (averageRating (reviews a)) (averageRating (reviews b)))
     (array_sort byRatingDesc xs)"
proof -
  let ?ys = "array_sort byRatingDesc xs"
  have ys: "\<forall>p\<in>set ?ys. averageRating (reviews p) \<noteq> NaN"
    using assms by (simp add: set_array_sort)
  have "sorted (map avg_key ?ys)"
    unfolding array_sort_sort_key [OF assms] by (rule sorted_sort_key)
  then have "sorted_wrt (\<lambda>a b. avg_key a \<le> avg_key b) ?ys"
    by (simp add: sorted_map)
  then show ?thesis
  proof (rule sorted_wrt_mono_rel [rotated])
    fix a b assume "a \<in> set ?ys" "b \<in> set ?ys" "avg_key a \<le> avg_key b"
    with ys show "num_ge (averageRating (reviews a)) (averageRating (reviews b))"
      by (simp add: num_ge_desc_key avg_key_def)
  qed
qed

lemma stable_array_sort_byRatingDesc:
  assumes "\<forall>p\<in>set xs. averageRating (reviews p) \<noteq> NaN"
  shows "filter (\<lambda>p. averageRating (reviews p) = k) (array_sort byRatingDesc xs) =
         filter (\<lambda>p. averageRating (reviews p) = k) xs"
proof -
  have "filter (\<lambda>p. avg_key p = desc_key k) (array_sort byRatingDesc xs) =
        filter (\<lambda>p. avg_key p = desc_key k) xs"
    unfolding array_sort_sort_key [OF assms] by (rule sort_key_stable)
  then show ?thesis by (simp add: avg_key_def desc_key_inj)
qed

lemma filtered_unfold:
  "filtered unicode products qry sel m =
     array_sort byRatingDesc
       (filter (\<lambda>p. matchesText unicode (toLowerCase unicode (trim qry)) p \<and>
                    matchesCat unicode (toLowerCase unicode sel) p \<and> matchesRating m p)
          products)"
  by (simp add: filtered_def)

lemma set_filtered:
  "set (filtered unicode products qry sel m) =
     {p \<in> set products. matchesText unicode (toLowerCase unicode (trim qry)) p \<and>
        matchesCat unicode (toLowerCase unicode sel) p \<and> matchesRating m p}"
  by (simp add: filtered_unfold set_array_sort)

text \<open>
  C4. For every catalog and every filter state, the derived list is sorted in
  non-increasing order of average rating, and the sort is stable: for every rating \<open>k\<close>,
  the products of average rating \<open>k\<close> stand in the derived list in the order in which they
  stand in the catalog.
\<close>

theorem filtered_sorted_stable:
  "sorted_wrt (\<lambda>a b. num_ge (averageRating (reviews a)) (averageRating (reviews b)))
     (filtered unicode products qry sel m) \<and>
   (\<forall>k. filter (\<lambda>p. averageRating (reviews p) = k) (filtered unicode products qry sel m) =
        filter (\<lambda>p. averageRating (reviews p) = k)
          (filter (\<lambda>p. matchesText unicode (toLowerCase unicode (trim qry)) p \<and>
                       matchesCat unicode (toLowerCase unicode sel) p \<and> matchesRating m p)
             products))"
proof -
  let ?kept = "filter (\<lambda>p. matchesText unicode (toLowerCase unicode (trim qry)) p \<and>
      matchesCat unicode (toLowerCase unicode sel) p \<and> matchesRating m p) products"
  have ok: "\<forall>p\<in>set ?kept. averageRating (reviews p) \<noteq> NaN"
    by (auto dest: matchesRating_not_NaN)
  show ?thesis
    unfolding filtered_unfold
    using sorted_array_sort_byRatingDesc [OF ok] stable_array_sort_byRatingDesc [OF ok]
    by blast
qed

lemma seed_not_NaN: "\<forall>p\<in>set MOCK_PRODUCTS. averageRating (reviews p) \<noteq> NaN"
  by (simp add: MOCK_PRODUCTS_def seed_averages)

lemma seed_avg_keys:
  "avg_key p1 = (0, - (9 / 2))" "avg_key p2 = (0, - (7 / 2))" "avg_key p3 = (0, - 3)"
  "avg_key p4 = (0, - (9 / 2))" "avg_key p5 = (0, - (9 / 2))" "avg_key p6 = (0, - (7 / 2))"
  by (simp_all add: avg_key_def desc_key_def seed_averages)

lemma seed_all_by_rating:
  "filtered unicode MOCK_PRODUCTS (js '''') (js ''todas'') (Num 0) = [p1, p4, p5, p2, p6, p3]"
proof -
  have "filter (\<lambda>p. matchesText unicode (toLowerCase unicode (trim (js ''''))) p \<and>
            matchesCat unicode (toLowerCase unicode (js ''todas'')) p \<and>
            matchesRating (Num 0) p) MOCK_PRODUCTS = MOCK_PRODUCTS"
    by (simp add: MOCK_PRODUCTS_def trim_empty matchesText_empty matchesCat_def
        toLowerCase_todas matchesRating_def seed_averages)
  then have "filtered unicode MOCK_PRODUCTS (js '''') (js ''todas'') (Num 0) =
      sort_key avg_key MOCK_PRODUCTS"
    unfolding filtered_unfold by (simp only: array_sort_sort_key [OF seed_not_NaN])
  also have "\<dots> = [p1, p4, p5, p2, p6, p3]"
    by (simp add: MOCK_PRODUCTS_def seed_avg_keys)
  finally show ?thesis .
qed

theorem filtered_sorted_stable_witness:
  "filtered cased_sample MOCK_PRODUCTS (js '''') (js ''todas'') (Num 0) =
     [p1, p4, p5, p2, p6, p3] \<and>
   sorted_wrt (\<lambda>a b. num_ge (averageRating (reviews a)) (averageRating (reviews b)))
     [p1, p4, p5, p2, p6, p3]"
  using filtered_sorted_stable [of cased_sample MOCK_PRODUCTS "js ''''" "js ''todas''" "Num 0"]
  by (simp only: seed_all_by_rating simp_thms)

subsection \<open>The category predicate\<close>

text \<open>
  The filter callback compares the lowercased selected category with \<^verbatim>\<open>"todas"\<close>, so every
  spelling of the sentinel in another case selects all products as well, whatever their
  category: with \<^verbatim>\<open>"TODAS"\<close> selected the predicate holds for a product of the category
  \<^verbatim>\<open>"limpeza"\<close>, although the selection neither is the sentinel nor names that category.
\<close>

theorem category_predicate_counterexample:
  "\<not> (matchesCat cased_sample (toLowerCase cased_sample (js ''TODAS'')) p3 \<longleftrightarrow>
        js ''TODAS'' = js ''todas'' \<or>
        toLowerCase cased_sample (js ''TODAS'') = toLowerCase cased_sample (category p3))"
proof -
  have "js ''TODAS'' \<noteq> js ''todas''" by (simp add: js_def)
  moreover have "js ''todas'' \<noteq> js ''limpeza''" by (simp add: js_def)
  ultimately show ?thesis
    by (simp add: matchesCat_def toLowerCase_TODAS seed_categories seed_lower_categories)
qed

text \<open>
  C3 (amended). For every product and every selected category, the category predicate
  holds if and only if the lowercased selected category is the sentinel \<^verbatim>\<open>"todas"\<close> or is
  the lowercased category of the product. So a product is in the derived list exactly
  when it is in the catalog, satisfies the text and the rating predicate, and the
  lowercased selection is the sentinel or its lowercased category; and for every query
  and minimum rating, filtering with a selection that lowers to the sentinel yields
  what the text and rating predicates alone yield. This holds whatever the case table
  \<open>unicode\<close> of the engine is.
\<close>

theorem category_predicate:
  "(matchesCat unicode (toLowerCase unicode sel) p \<longleftrightarrow>
      toLowerCase unicode sel = js ''todas'' \<or>
      toLowerCase unicode sel = toLowerCase unicode (category p)) \<and>
   (p \<in> set (filtered unicode products qry sel m) \<longleftrightarrow>
      p \<in> set products \<and> matchesText unicode (toLowerCase unicode (trim qry)) p \<and>
      (toLowerCase unicode sel = js ''todas'' \<or>
       toLowerCase unicode sel = toLowerCase unicode (category p)) \<and>
      matchesRating m p) \<and>
   (toLowerCase unicode sel = js ''todas'' \<longrightarrow>
      filtered unicode products qry sel m =
        array_sort byRatingDesc
          (filter (\<lambda>p. matchesText unicode (toLowerCase unicode (trim qry)) p \<and>
                       matchesRating m p) products))"
proof (intro conjI impI)
  show c: "matchesCat unicode (toLowerCase unicode sel) p \<longleftrightarrow>
      toLowerCase unicode sel = js ''todas'' \<or>
      toLowerCase unicode sel = toLowerCase unicode (category p)"
    by (auto simp: matchesCat_def)
  show "p \<in> set (filtered unicode products qry sel m) \<longleftrightarrow>
      p \<in> set products \<and> matchesText unicode (toLowerCase unicode (trim qry)) p \<and>
      (toLowerCase unicode sel = js ''todas'' \<or>
       toLowerCase unicode sel = toLowerCase unicode (category p)) \<and>
      matchesRating m p"
    using c by (simp add: set_filtered)
next
  assume "toLowerCase unicode sel = js ''todas''"
  then show "filtered unicode products qry sel m =
        array_sort byRatingDesc
          (filter (\<lambda>p. matchesText unicode (toLowerCase unicode (trim qry)) p \<and>
                       matchesRating m p) products)"
    by (simp add: filtered_unfold matchesCat_def)
qed

text \<open>
  The sentinel itself and its upper-case spelling over the seed catalog: all six
  products, by rating.
\<close>

theorem category_predicate_witness:
  "filtered cased_sample MOCK_PRODUCTS (js '''') (js ''TODAS'') (Num 0) =
     array_sort byRatingDesc
       (filter (\<lambda>p. matchesText cased_sample (toLowerCase cased_sample (trim (js ''''))) p \<and>
                    matchesRating (Num 0) p) MOCK_PRODUCTS) \<and>
   filtered cased_sample MOCK_PRODUCTS (js '''') (js ''todas'') (Num 0) =
     [p1, p4, p5, p2, p6, p3]"
  using category_predicate [of cased_sample "js ''TODAS''" p1 MOCK_PRODUCTS "js ''''" "Num 0"]
    toLowerCase_TODAS [of cased_sample] seed_all_by_rating [of cased_sample]
  by blast

subsection \<open>The rating predicate at threshold 0\<close>

text \<open>
  The average of negative ratings is negative, so a threshold of 0 does exclude a
  product: \<open>negative_review_product\<close> passes the text and the category predicate and is
  filtered out all the same. A rating that is NaN has the same effect, since every
  comparison with NaN is false.
\<close>

lemma negative_average: "averageRating (reviews negative_review_product) = Num (- 1)"
  by (simp add: averageRating_def negative_review_product_def round_double_minus_one)

theorem min_rating_zero_counterexample:
  "matchesText cased_sample (toLowerCase cased_sample (trim (js ''''))) negative_review_product \<and>
   matchesCat cased_sample (toLowerCase cased_sample (js ''todas'')) negative_review_product \<and>
   \<not> matchesRating (Num 0) negative_review_product \<and>
   filtered cased_sample [negative_review_product] (js '''') (js ''todas'') (Num 0) = []"
  by (simp add: filtered_def trim_empty matchesText_empty matchesCat_def toLowerCase_todas
      matchesRating_def negative_average array_sort_def)

lemma NaN_average_excluded:
  assumes "averageRating (reviews p) = NaN"
  shows "\<not> matchesRating (Num 0) p"
  using assms by (simp add: matchesRating_def)

lemma filter_rating_zero:
  assumes "\<forall>p\<in>set products. \<forall>r\<in>set (reviews p). num_ge (rating r) (Num 0)"
  shows "filter (\<lambda>p. A p \<and> B p \<and> matchesRating (Num 0) p) products =
         filter (\<lambda>p. A p \<and> B p) products"
  using assms by (intro filter_cong refl) (auto simp: matchesRating_def averageRating_ge_zero)

text \<open>
  C5 (amended). For every catalog in which every review rating \<open>r\<close> satisfies \<^verbatim>\<open>r >= 0\<close>
  (it is neither negative nor NaN), and for every query and selected category, every
  product satisfies the rating predicate at threshold 0, so filtering with threshold 0
  yields what the text and category predicates alone yield.
\<close>

theorem min_rating_zero:
  assumes "\<forall>p\<in>set products. \<forall>r\<in>set (reviews p). num_ge (rating r) (Num 0)"
  shows "(\<forall>p\<in>set products. matchesRating (Num 0) p) \<and>
         filtered unicode products qry sel (Num 0) =
           array_sort byRatingDesc
             (filter (\<lambda>p. matchesText unicode (toLowerCase unicode (trim qry)) p \<and>
                          matchesCat unicode (toLowerCase unicode sel) p) products)"
proof
  show "\<forall>p\<in>set products. matchesRating (Num 0) p"
    using assms by (simp add: matchesRating_def averageRating_ge_zero)
  show "filtered unicode products qry sel (Num 0) =
          array_sort byRatingDesc
            (filter (\<lambda>p. matchesText unicode (toLowerCase unicode (trim qry)) p \<and>
                         matchesCat unicode (toLowerCase unicode sel) p) products)"
    unfolding filtered_unfold by (simp only: filter_rating_zero [OF assms])
qed

theorem min_rating_zero_witness:
  "matchesRating (Num 0) p3 \<and>
   filtered cased_sample MOCK_PRODUCTS (js '''') (js ''hidratante'') (Num 0) =
     array_sort byRatingDesc
       (filter (\<lambda>p. matchesText cased_sample (toLowerCase cased_sample (trim (js ''''))) p \<and>
                    matchesCat cased_sample (toLowerCase cased_sample (js ''hidratante'')) p)
          MOCK_PRODUCTS)"
  using min_rating_zero [OF seed_ratings_ge_zero, of cased_sample "js ''''" "js ''hidratante''"]
  by (simp add: MOCK_PRODUCTS_def)

subsection \<open>A scenario over the seed catalog\<close>

lemma seed_hidratante_list:
  "filtered unicode MOCK_PRODUCTS (js '''') (js ''hidratante'') (Num 4) = [p1, p5]"
proof -
  have "filter (\<lambda>p. matchesText unicode (toLowerCase unicode (trim (js ''''))) p \<and>
            matchesCat unicode (toLowerCase unicode (js ''hidratante'')) p \<and>
            matchesRating (Num 4) p) MOCK_PRODUCTS = [p1, p5]"
    by (simp add: MOCK_PRODUCTS_def trim_empty matchesText_empty toLowerCase_hidratante
        matchesCat_hidratante matchesRating_def seed_averages)
  moreover have "\<forall>p\<in>set [p1, p5]. averageRating (reviews p) \<noteq> NaN"
    by (simp add: seed_averages)
  ultimately have "filtered unicode MOCK_PRODUCTS (js '''') (js ''hidratante'') (Num 4) =
      sort_key avg_key [p1, p5]"
    unfolding filtered_unfold by (simp only: array_sort_sort_key)
  also have "\<dots> = [p1, p5]"
    by (simp add: seed_avg_keys)
  finally show ?thesis .
qed

text \<open>
  C6. Over \<open>MOCK_PRODUCTS\<close>, with an empty applied query, the category \<^verbatim>\<open>"hidratante"\<close>
  selected and minimum rating 4, the derived list is the products with the ids
  \<^verbatim>\<open>"p1"\<close> and \<^verbatim>\<open>"p5"\<close>, in this order; both average 4.5, and the tie keeps the order of
  the catalog.
\<close>

theorem seed_hidratante_min4:
  "filtered unicode MOCK_PRODUCTS (js '''') (js ''hidratante'') (Num 4) = [p1, p5] \<and>
   map pid (filtered unicode MOCK_PRODUCTS (js '''') (js ''hidratante'') (Num 4)) =
     [js ''p1'', js ''p5''] \<and>
   averageRating (reviews p1) = Num (9 / 2) \<and> averageRating (reviews p5) = Num (9 / 2)"
  by (simp add: seed_hidratante_list seed_averages seed_ids)

subsection \<open>Resolving the focused product\<close>

lemma focusedProduct_unset: "focusedProduct products None = None"
  by (simp add: focusedProduct_def find_None_iff)

lemma focusedProduct_absent:
  assumes "i \<notin> pid ` set products"
  shows "focusedProduct products (Some i) = None"
  using assms by (auto simp: focusedProduct_def find_None_iff)

lemma focusedProduct_first:
  assumes "i \<in> pid ` set products"
  shows "\<exists>p. focusedProduct products (Some i) = Some p \<and> p \<in> set products \<and> pid p = i"
proof -
  from assms have "find (\<lambda>p. Some (pid p) = Some i) products \<noteq> None"
    by (auto simp: find_None_iff)
  then obtain p where p: "find (\<lambda>p. Some (pid p) = Some i) products = Some p"
    by blast
  then have "p \<in> set products \<and> pid p = i"
    by (auto simp: find_Some_iff)
  with p show ?thesis by (simp add: focusedProduct_def)
qed

text \<open>
  C7. Resolving a focus id against the catalog yields no product when the id is unset or
  is the id of no product of the catalog; otherwise it yields a product of the catalog
  with that id, which is the product with that id when the catalog holds exactly one.
  \<open>focusedProduct\<close> is a total function: no case raises an error.
\<close>

theorem focusedProduct_resolves:
  "focusedProduct products None = None \<and>
   (i \<notin> pid ` set products \<longrightarrow> focusedProduct products (Some i) = None) \<and>
   (i \<in> pid ` set products \<longrightarrow>
      (\<exists>p. focusedProduct products (Some i) = Some p \<and> p \<in> set products \<and> pid p = i)) \<and>
   (p \<in> set products \<and> pid p = i \<and> (\<forall>p'\<in>set products. pid p' = i \<longrightarrow> p' = p) \<longrightarrow>
      focusedProduct products (Some i) = Some p)"
proof (intro conjI impI)
  show "focusedProduct products None = None" by (rule focusedProduct_unset)
next
  assume "i \<notin> pid ` set products"
  then show "focusedProduct products (Some i) = None" by (rule focusedProduct_absent)
next
  assume "i \<in> pid ` set products"
  then show "\<exists>p. focusedProduct products (Some i) = Some p \<and> p \<in> set products \<and> pid p = i"
    by (rule focusedProduct_first)
next
  assume a: "p \<in> set products \<and> pid p = i \<and> (\<forall>p'\<in>set products. pid p' = i \<longrightarrow> p' = p)"
  then have "i \<in> pid ` set products" by auto
  from focusedProduct_first [OF this] obtain p'
    where p': "focusedProduct products (Some i) = Some p'" "p' \<in> set products" "pid p' = i"
    by blast
  with a have "p' = p" by blast
  with p' show "focusedProduct products (Some i) = Some p" by simp
qed

theorem focusedProduct_resolves_witness:
  "focusedProduct MOCK_PRODUCTS None = None \<and>
   focusedProduct MOCK_PRODUCTS (Some (js ''p9'')) = None \<and>
   focusedProduct MOCK_PRODUCTS (Some (js ''p3'')) = Some p3"
proof -
  have absent: "js ''p9'' \<notin> pid ` set MOCK_PRODUCTS"
    by (simp add: MOCK_PRODUCTS_def seed_ids js_def)
  have present: "p3 \<in> set MOCK_PRODUCTS \<and> pid p3 = js ''p3'' \<and>
      (\<forall>p'\<in>set MOCK_PRODUCTS. pid p' = js ''p3'' \<longrightarrow> p' = p3)"
    by (simp add: MOCK_PRODUCTS_def seed_ids js_def)
  show ?thesis
    using focusedProduct_resolves [of MOCK_PRODUCTS "js ''p9''" p3]
      focusedProduct_resolves [of MOCK_PRODUCTS "js ''p3''" p3] absent present
    by blast
qed

subsection \<open>The derivation over the store\<close>

text \<open>
  Reading an array of products succeeds exactly when the cell is an array whose
  elements refer to product objects.
\<close>

lemma those_eq_Some: "those xs = Some ys \<longleftrightarrow> xs = map Some ys"
  by (induction xs arbitrary: ys) (auto split: option.splits)

lemma read_products_SomeD:
  assumes "read_products h a = Some rps"
  shows "store h a = Some (Arr (map fst rps))"
    and "\<forall>rp\<in>set rps. store h (fst rp) = Some (Obj (snd rp))"
proof -
  from assms obtain rs ps where rs: "read_array h a = Some rs"
    and ps: "those (map (read_product h) rs) = Some ps" and rps: "rps = zip rs ps"
    by (auto simp: read_products_def split: option.splits)
  from ps have m: "map (read_product h) rs = map Some ps"
    by (simp add: those_eq_Some)
  then have len: "length rs = length ps"
    by (metis length_map)
  from rs have "store h a = Some (Arr rs)"
    by (auto simp: read_array_def split: option.splits cell.splits)
  with len rps show "store h a = Some (Arr (map fst rps))" by simp
  show "\<forall>rp\<in>set rps. store h (fst rp) = Some (Obj (snd rp))"
  proof
    fix rp assume "rp \<in> set rps"
    then obtain i where i: "i < length rs" "i < length ps" "rp = (rs ! i, ps ! i)"
      unfolding rps by (auto simp: set_zip)
    from m i have "read_product h (rs ! i) = Some (ps ! i)"
      by (metis nth_map length_map)
    with i show "store h (fst rp) = Some (Obj (snd rp))"
      by (auto simp: read_product_def split: option.splits cell.splits)
  qed
qed

lemma read_products_SomeI:
  assumes "store h a = Some (Arr (map fst rps))"
    and "\<forall>rp\<in>set rps. store h (fst rp) = Some (Obj (snd rp))"
  shows "read_products h a = Some rps"
proof -
  have "map (read_product h) (map fst rps) = map Some (map snd rps)"
    using assms(2) by (simp add: read_product_def)
  then have "those (map (read_product h) (map fst rps)) = Some (map snd rps)"
    by (simp add: those_eq_Some)
  with assms(1) show ?thesis
    by (simp add: read_products_def read_array_def zip_map_fst_snd)
qed

lemma wf_heap_bound: "wf_heap h \<Longrightarrow> store h a = Some c \<Longrightarrow> a < fresh h"
  by (metis wf_heap_def not_le option.distinct(1))

lemma read_products_frame:
  assumes "wf_heap h" and "read_products h a = Some rps"
    and "\<forall>b. b < fresh h \<longrightarrow> store h' b = store h b"
  shows "read_products h' a = Some rps"
proof (rule read_products_SomeI)
  from read_products_SomeD(1) [OF assms(2)] have a: "store h a = Some (Arr (map fst rps))" .
  with assms(1) have "a < fresh h" by (rule wf_heap_bound)
  with a assms(3) show "store h' a = Some (Arr (map fst rps))" by simp
  show "\<forall>rp\<in>set rps. store h' (fst rp) = Some (Obj (snd rp))"
  proof
    fix rp assume "rp \<in> set rps"
    with read_products_SomeD(2) [OF assms(2)]
    have r: "store h (fst rp) = Some (Obj (snd rp))" by blast
    with assms(1) have "fst rp < fresh h" by (rule wf_heap_bound)
    with r assms(3) show "store h' (fst rp) = Some (Obj (snd rp))" by simp
  qed
qed

lemma map_snd_insert_cmp:
  "map snd (insert_cmp (\<lambda>x y. cmp (snd x) (snd y)) x ys) = insert_cmp cmp (snd x) (map snd ys)"
  by (induction ys) simp_all

lemma map_snd_array_sort:
  "map snd (array_sort (\<lambda>x y. cmp (snd x) (snd y)) xs) = array_sort cmp (map snd xs)"
  unfolding array_sort_def by (induction xs) (simp_all add: map_snd_insert_cmp)

lemma map_snd_filter_snd:
  "map snd (filter (\<lambda>rp. P (snd rp)) rps) = filter P (map snd rps)"
  by (induction rps) simp_all

text \<open>
  What each operation returns and writes, given that the array can be read: \<open>filter\<close> and
  the steps of \<open>categories\<close> write fresh cells only, and \<open>sort\<close> writes the cell it is
  called on.
\<close>

lemma categories_h_result:
  assumes "read_products h seed = Some rps"
  shows "categories_h seed h =
     Some (fresh h + 3,
       h\<lparr>store := (store h)
            (fresh h \<mapsto> StrArr (map category (map snd rps)),
             fresh h + 1 \<mapsto> SetObj (new_Set (map category (map snd rps))),
             fresh h + 2 \<mapsto> StrArr (new_Set (map category (map snd rps))),
             fresh h + 3 \<mapsto> StrArr (categories (map snd rps))),
          fresh := fresh h + 4\<rparr>)"
  using assms
  by (simp add: categories_h_def alloc_def categories_def Let_def comp_def numeral_eq_Suc)

lemma array_filter_h_result:
  assumes "read_products h a = Some rps"
  shows "array_filter_h P a h =
     Some (fresh h,
       h\<lparr>store := (store h)(fresh h \<mapsto> Arr (map fst (filter (\<lambda>rp. P (snd rp)) rps))),
          fresh := Suc (fresh h)\<rparr>)"
  using assms by (simp add: array_filter_h_def alloc_def)

lemma array_sort_h_result:
  assumes "read_products h a = Some rps"
  shows "array_sort_h cmp a h =
     Some (a, h\<lparr>store := (store h)
                  (a \<mapsto> Arr (map fst (array_sort (\<lambda>x y. cmp (snd x) (snd y)) rps)))\<rparr>)"
  using assms by (simp add: array_sort_h_def)

lemma filtered_h_result:
  assumes "wf_heap h" and "read_products h seed = Some rps"
  shows "\<exists>h'. filtered_h unicode seed qry sel m h = Some (fresh h, h') \<and>
           fresh h' = Suc (fresh h) \<and>
           (\<forall>a. a \<noteq> fresh h \<longrightarrow> store h' a = store h a) \<and>
           products_at h' (fresh h) = Some (filtered unicode (map snd rps) qry sel m)"
proof -
  define P where "P = (\<lambda>p. matchesText unicode (toLowerCase unicode (trim qry)) p \<and>
      matchesCat unicode (toLowerCase unicode sel) p \<and> matchesRating m p)"
  define kept where "kept = filter (\<lambda>rp. P (snd rp)) rps"
  define ordered where "ordered = array_sort (\<lambda>x y. byRatingDesc (snd x) (snd y)) kept"
  define h1 where "h1 = h\<lparr>store := (store h)(fresh h \<mapsto> Arr (map fst kept)),
      fresh := Suc (fresh h)\<rparr>"
  define h2 where "h2 = h1\<lparr>store := (store h1)(fresh h \<mapsto> Arr (map fst ordered))\<rparr>"
  have objs: "\<forall>rp\<in>set rps. store h (fst rp) = Some (Obj (snd rp)) \<and> fst rp \<noteq> fresh h"
  proof
    fix rp assume "rp \<in> set rps"
    with read_products_SomeD(2) [OF assms(2)]
    have r: "store h (fst rp) = Some (Obj (snd rp))" by blast
    with assms(1) have "fst rp < fresh h" by (rule wf_heap_bound)
    with r show "store h (fst rp) = Some (Obj (snd rp)) \<and> fst rp \<noteq> fresh h" by simp
  qed
  have f: "array_filter_h P seed h = Some (fresh h, h1)"
    unfolding h1_def kept_def by (rule array_filter_h_result [OF assms(2)])
  have "read_products h1 (fresh h) = Some kept"
  proof (rule read_products_SomeI)
    show "store h1 (fresh h) = Some (Arr (map fst kept))" by (simp add: h1_def)
    show "\<forall>rp\<in>set kept. store h1 (fst rp) = Some (Obj (snd rp))"
      using objs by (simp add: h1_def kept_def)
  qed
  then have s: "array_sort_h byRatingDesc (fresh h) h1 = Some (fresh h, h2)"
    unfolding h2_def ordered_def by (rule array_sort_h_result)
  have run: "filtered_h unicode seed qry sel m h = Some (fresh h, h2)"
    using f s by (simp add: filtered_h_def P_def)
  have "read_products h2 (fresh h) = Some ordered"
  proof (rule read_products_SomeI)
    show "store h2 (fresh h) = Some (Arr (map fst ordered))" by (simp add: h2_def)
    show "\<forall>rp\<in>set ordered. store h2 (fst rp) = Some (Obj (snd rp))"
      using objs by (simp add: h2_def h1_def ordered_def kept_def set_array_sort)
  qed
  then have "products_at h2 (fresh h) = Some (map snd ordered)"
    by (simp add: products_at_def)
  also have "map snd ordered = array_sort byRatingDesc (filter P (map snd rps))"
    unfolding ordered_def kept_def map_snd_array_sort map_snd_filter_snd ..
  also have "\<dots> = filtered unicode (map snd rps) qry sel m"
    by (simp add: filtered_def P_def)
  finally have res: "products_at h2 (fresh h) = Some (filtered unicode (map snd rps) qry sel m)" .
  have "fresh h2 = Suc (fresh h)" by (simp add: h2_def h1_def)
  moreover have "\<forall>a. a \<noteq> fresh h \<longrightarrow> store h2 a = store h a" by (simp add: h2_def h1_def)
  ultimately show ?thesis using run res by blast
qed

lemma derive_h_result:
  assumes "wf_heap h" and "read_products h seed = Some rps"
  shows "\<exists>h'. derive_h unicode seed qry sel m h = Some ((fresh h + 3, fresh h + 4), h') \<and>
           (\<forall>a. a < fresh h \<longrightarrow> store h' a = store h a) \<and>
           read_products h' seed = Some rps \<and> seed < fresh h \<and>
           strings_at h' (fresh h + 3) = Some (categories (map snd rps)) \<and>
           products_at h' (fresh h + 4) = Some (filtered unicode (map snd rps) qry sel m)"
proof -
  define h1 where "h1 = h\<lparr>store := (store h)
            (fresh h \<mapsto> StrArr (map category (map snd rps)),
             fresh h + 1 \<mapsto> SetObj (new_Set (map category (map snd rps))),
             fresh h + 2 \<mapsto> StrArr (new_Set (map category (map snd rps))),
             fresh h + 3 \<mapsto> StrArr (categories (map snd rps))),
          fresh := fresh h + 4\<rparr>"
  have c: "categories_h seed h = Some (fresh h + 3, h1)"
    unfolding h1_def by (rule categories_h_result [OF assms(2)])
  have below: "\<forall>b. b < fresh h \<longrightarrow> store h1 b = store h b" by (simp add: h1_def)
  have wf1: "wf_heap h1" using assms(1) by (simp add: wf_heap_def h1_def)
  have rp1: "read_products h1 seed = Some rps"
    by (rule read_products_frame [OF assms below])
  have fr1: "fresh h1 = fresh h + 4" by (simp add: h1_def)
  from filtered_h_result [OF wf1 rp1, of unicode qry sel m] obtain h2 where
    f: "filtered_h unicode seed qry sel m h1 = Some (fresh h1, h2)"
    and st: "\<forall>a. a \<noteq> fresh h1 \<longrightarrow> store h2 a = store h1 a"
    and res: "products_at h2 (fresh h1) = Some (filtered unicode (map snd rps) qry sel m)"
    by blast
  have d: "derive_h unicode seed qry sel m h = Some ((fresh h + 3, fresh h + 4), h2)"
    using c f by (simp add: derive_h_def fr1)
  have below2: "\<forall>a. a < fresh h \<longrightarrow> store h2 a = store h a"
    using st below by (simp add: fr1)
  have rp2: "read_products h2 seed = Some rps"
    by (rule read_products_frame [OF assms below2])
  have "store h seed = Some (Arr (map fst rps))"
    by (rule read_products_SomeD(1) [OF assms(2)])
  with assms(1) have seed: "seed < fresh h" by (rule wf_heap_bound)
  have "store h2 (fresh h + 3) = store h1 (fresh h + 3)" using st by (simp add: fr1)
  then have cats: "strings_at h2 (fresh h + 3) = Some (categories (map snd rps))"
    by (simp add: strings_at_def h1_def)
  from d below2 rp2 seed cats res show ?thesis by (auto simp: fr1)
qed

lemma wf_load_catalog: "wf_heap (snd (load_catalog ps))"
  by (simp add: wf_heap_def load_catalog_def)

lemma read_load_catalog:
  "read_products (snd (load_catalog ps)) (fst (load_catalog ps)) =
     Some (zip [0..<length ps] ps)"
proof (rule read_products_SomeI)
  show "store (snd (load_catalog ps)) (fst (load_catalog ps)) =
          Some (Arr (map fst (zip [0..<length ps] ps)))"
    by (simp add: load_catalog_def)
  show "\<forall>rp\<in>set (zip [0..<length ps] ps).
          store (snd (load_catalog ps)) (fst rp) = Some (Obj (snd rp))"
    by (auto simp: load_catalog_def set_zip)
qed

text \<open>
  C9. Deriving the category list and the filtered, sorted list changes no cell that was
  allocated before: in a well-formed store whose cell \<open>seed\<close> is an array of products,
  the derivation succeeds, every earlier cell holds afterwards what it held before, so
  the seed array has the same elements in the same order and every product object
  (with its ingredient and review lists) is unchanged; both results lie in fresh cells,
  and the in-place sort has written the array that \<open>filter\<close> built, which holds the
  list that \<open>filtered\<close> computes.
\<close>

theorem derive_h_preserves_seed:
  assumes "wf_heap h" and "read_products h seed = Some rps"
  shows "\<exists>cats list h'. derive_h unicode seed qry sel m h = Some ((cats, list), h') \<and>
           (\<forall>a. a < fresh h \<longrightarrow> store h' a = store h a) \<and>
           read_products h' seed = Some rps \<and>
           seed < fresh h \<and> fresh h \<le> cats \<and> fresh h \<le> list \<and>
           strings_at h' cats = Some (categories (map snd rps)) \<and>
           products_at h' list = Some (filtered unicode (map snd rps) qry sel m)"
proof -
  from derive_h_result [OF assms, of unicode qry sel m] obtain h' where
    "derive_h unicode seed qry sel m h = Some ((fresh h + 3, fresh h + 4), h')"
    "\<forall>a. a < fresh h \<longrightarrow> store h' a = store h a"
    "read_products h' seed = Some rps" "seed < fresh h"
    "strings_at h' (fresh h + 3) = Some (categories (map snd rps))"
    "products_at h' (fresh h + 4) = Some (filtered unicode (map snd rps) qry sel m)"
    by blast
  moreover have "fresh h \<le> fresh h + 3" "fresh h \<le> fresh h + 4" by simp_all
  ultimately show ?thesis by blast
qed

theorem derive_h_preserves_seed_witness:
  "\<exists>cats list h'.
     derive_h cased_sample 6 (js '''') (js ''hidratante'') (Num 4)
         (snd (load_catalog MOCK_PRODUCTS)) =
       Some ((cats, list), h') \<and>
     store h' 6 = store (snd (load_catalog MOCK_PRODUCTS)) 6 \<and>
     products_at h' 6 = Some MOCK_PRODUCTS \<and>
     list \<noteq> 6 \<and>
     products_at h' list = Some [p1, p5]"
proof -
  let ?h = "snd (load_catalog MOCK_PRODUCTS)"
  let ?rps = "zip [0..<length MOCK_PRODUCTS] MOCK_PRODUCTS"
  have rp: "read_products ?h 6 = Some ?rps"
    using read_load_catalog [of MOCK_PRODUCTS] by (simp only: load_seed_catalog)
  from derive_h_preserves_seed [OF wf_load_catalog rp,
      where unicode = cased_sample and qry = "js ''''" and sel = "js ''hidratante''"
        and m = "Num 4"]
  obtain cats list h' where
    d: "derive_h cased_sample 6 (js '''') (js ''hidratante'') (Num 4) ?h =
          Some ((cats, list), h')"
    and fr: "\<forall>a. a < fresh ?h \<longrightarrow> store h' a = store ?h a"
    and rp': "read_products h' 6 = Some ?rps"
    and l: "fresh ?h \<le> list"
    and res: "products_at h' list =
          Some (filtered cased_sample (map snd ?rps) (js '''') (js ''hidratante'') (Num 4))"
    by blast
  from fr have "store h' 6 = store ?h 6" by (simp add: load_seed_catalog)
  moreover from rp' have "products_at h' 6 = Some MOCK_PRODUCTS"
    by (simp add: products_at_def)
  moreover from l have "list \<noteq> 6" by (simp add: load_seed_catalog)
  moreover from res have "products_at h' list = Some [p1, p5]"
    by (simp add: seed_hidratante_list)
  ultimately show ?thesis using d by blast
qed

subsection \<open>The debounce effect\<close>

lemma quiet_before_snoc_later:
  assumes "quiet_before sched a" and "fst a \<le> fst e"
  shows "quiet_before (sched @ [e]) a"
  using assms by (induction sched) auto

lemma quiet_before_last:
  assumes "250 \<le> t" and "sched \<noteq> []" and "last sched = (t - 250, v)"
  shows "quiet_before sched (t, v)"
  using assms by (induction sched) (auto split: if_splits)

lemma history_ok_mount: "history_ok mount"
  by (simp add: history_ok_def mount_def)

lemma history_ok_SetQuery:
  assumes "history_ok s"
  shows "history_ok (step s (SetQuery v))"
proof (cases "v = query s")
  case True
  with assms show ?thesis by simp
next
  case False
  have q: "list_all (quiet_before (scheduled s @ [(now s, v)])) (applied s)"
    using assms
    by (auto simp: history_ok_def list_all_iff intro!: quiet_before_snoc_later)
  show ?thesis
    using assms False q by (simp add: history_ok_def)
qed

lemma list_all_mono_le:
  assumes "list_all (\<lambda>e. fst e \<le> (n::nat)) xs" and "n \<le> n'"
  shows "list_all (\<lambda>e. fst e \<le> n') xs"
  using assms by (auto simp: list_all_iff)

lemma history_ok_Elapse:
  assumes "history_ok s"
  shows "history_ok (step s (Elapse d))"
proof (cases "timer s")
  case None
  with assms show ?thesis
    by (auto simp: history_ok_def intro: list_all_mono_le)
next
  case (Some dv)
  obtain deadline v where dv: "dv = (deadline, v)" by (cases dv)
  from assms Some dv have t: "now s < deadline" "250 \<le> deadline" "scheduled s \<noteq> []"
    "last (scheduled s) = (deadline - 250, v)"
    by (simp_all add: history_ok_def)
  have mono1: "list_all (\<lambda>e. fst e \<le> now s + d) (scheduled s)"
    using assms by (auto simp: history_ok_def intro: list_all_mono_le)
  have mono2: "list_all (\<lambda>e. fst e \<le> now s + d) (applied s)"
    using assms by (auto simp: history_ok_def intro: list_all_mono_le)
  have qb: "list_all (quiet_before (scheduled s)) (applied s)"
    using assms by (simp add: history_ok_def)
  show ?thesis
  proof (cases "deadline \<le> now s + d")
    case True
    have "quiet_before (scheduled s) (deadline, v)"
      using t by (intro quiet_before_last) simp_all
    with True Some dv mono1 mono2 qb show ?thesis
      by (simp add: history_ok_def)
  next
    case False
    with Some dv mono1 mono2 qb t assms show ?thesis
      by (simp add: history_ok_def)
  qed
qed

lemma history_ok_step: "history_ok s \<Longrightarrow> history_ok (step s e)"
  by (cases e) (simp_all only: history_ok_SetQuery history_ok_Elapse)

lemma history_ok_run: "history_ok s \<Longrightarrow> history_ok (run s es)"
  unfolding run_def by (induction es arbitrary: s) (simp_all add: history_ok_step)

lemma js_abc_distinct:
  "js ''a'' \<noteq> []" "js ''ab'' \<noteq> js ''a''" "js ''abc'' \<noteq> js ''ab''"
  by (simp_all add: js_def)

lemma run_Cons: "run s (e # es) = run (step s e) es"
  by (simp add: run_def)

lemma run_Nil: "run s [] = s"
  by (simp add: run_def)

lemma after_first_edit:
  "step (step mount (Elapse d0)) (SetQuery (js ''a'')) =
     \<lparr>now = d0, query = js ''a'', debouncedQuery = [], timer = Some (d0 + 250, js ''a''),
      scheduled = [(0, []), (d0, js ''a'')],
      applied = (if 250 \<le> d0 then [(250, [])] else [])\<rparr>"
  by (simp add: mount_def js_abc_distinct)

lemma rapid_edit:
  assumes "d < 250" and "v' \<noteq> v"
  shows "step (step \<lparr>now = t, query = v, debouncedQuery = dq, timer = Some (t + 250, v),
                     scheduled = sch, applied = app\<rparr> (Elapse d)) (SetQuery v') =
         \<lparr>now = t + d, query = v', debouncedQuery = dq, timer = Some (t + d + 250, v'),
          scheduled = sch @ [(t + d, v')], applied = app\<rparr>"
  using assms by simp

lemma final_wait:
  "step \<lparr>now = t, query = v, debouncedQuery = dq, timer = Some (t + 250, v),
         scheduled = sch, applied = app\<rparr> (Elapse d) =
   (if 250 \<le> d
    then \<lparr>now = t + d, query = v, debouncedQuery = v, timer = None,
          scheduled = sch, applied = app @ [(t + 250, v)]\<rparr>
    else \<lparr>now = t + d, query = v, debouncedQuery = dq, timer = Some (t + 250, v),
          scheduled = sch, applied = app\<rparr>)"
  by simp

lemma scenario_abc:
  assumes "d1 < 250" and "d2 < 250"
  shows "run mount [Elapse d0, SetQuery (js ''a''), Elapse d1, SetQuery (js ''ab''),
            Elapse d2, SetQuery (js ''abc''), Elapse d3] =
         (if 250 \<le> d3
          then \<lparr>now = d0 + d1 + d2 + d3, query = js ''abc'', debouncedQuery = js ''abc'',
                timer = None,
                scheduled = [(0, []), (d0, js ''a''), (d0 + d1, js ''ab''),
                             (d0 + d1 + d2, js ''abc'')],
                applied = (if 250 \<le> d0 then [(250, [])] else []) @
                          [(d0 + d1 + d2 + 250, js ''abc'')]\<rparr>
          else \<lparr>now = d0 + d1 + d2 + d3, query = js ''abc'', debouncedQuery = [],
                timer = Some (d0 + d1 + d2 + 250, js ''abc''),
                scheduled = [(0, []), (d0, js ''a''), (d0 + d1, js ''ab''),
                             (d0 + d1 + d2, js ''abc'')],
                applied = (if 250 \<le> d0 then [(250, [])] else [])\<rparr>)"
proof -
  let ?run = "run mount [Elapse d0, SetQuery (js ''a''), Elapse d1, SetQuery (js ''ab''),
            Elapse d2, SetQuery (js ''abc''), Elapse d3]"
  define s2 where "s2 = step (step mount (Elapse d0)) (SetQuery (js ''a''))"
  define s4 where "s4 = step (step s2 (Elapse d1)) (SetQuery (js ''ab''))"
  define s6 where "s6 = step (step s4 (Elapse d2)) (SetQuery (js ''abc''))"
  have r: "?run = step s6 (Elapse d3)"
    by (simp only: run_Cons run_Nil s2_def s4_def s6_def)
  have e4: "s4 = \<lparr>now = d0 + d1, query = js ''ab'', debouncedQuery = [],
      timer = Some (d0 + d1 + 250, js ''ab''),
      scheduled = [(0, []), (d0, js ''a'')] @ [(d0 + d1, js ''ab'')],
      applied = (if 250 \<le> d0 then [(250, [])] else [])\<rparr>"
    unfolding s4_def s2_def after_first_edit
    by (rule rapid_edit [OF assms(1) js_abc_distinct(2)])
  have e6: "s6 = \<lparr>now = d0 + d1 + d2, query = js ''abc'', debouncedQuery = [],
      timer = Some (d0 + d1 + d2 + 250, js ''abc''),
      scheduled = ([(0, []), (d0, js ''a'')] @ [(d0 + d1, js ''ab'')]) @
                  [(d0 + d1 + d2, js ''abc'')],
      applied = (if 250 \<le> d0 then [(250, [])] else [])\<rparr>"
    unfolding s6_def e4
    by (rule rapid_edit [OF assms(2) js_abc_distinct(3)])
  show ?thesis
    unfolding r e6 final_wait by (simp add: add.assoc)
qed

text \<open>
  \<open>quiet_before\<close> searches the history for the split that the following lemma names.
\<close>

lemma quiet_before_iff:
  "quiet_before sched a \<longleftrightarrow>
     250 \<le> fst a \<and>
     (\<exists>earlier later. sched = earlier @ (fst a - 250, snd a) # later \<and>
        list_all (\<lambda>l. fst a \<le> fst l) later)"
proof (induction sched)
  case Nil
  show ?case by simp
next
  case (Cons e sched)
  show ?case
  proof
    assume "quiet_before (e # sched) a"
    then consider
      "250 \<le> fst a" "e = (fst a - 250, snd a)" "list_all (\<lambda>l. fst a \<le> fst l) sched"
      | "quiet_before sched a"
      by auto
    then show "250 \<le> fst a \<and>
       (\<exists>earlier later. e # sched = earlier @ (fst a - 250, snd a) # later \<and>
          list_all (\<lambda>l. fst a \<le> fst l) later)"
    proof cases
      case 1
      then have "e # sched = [] @ (fst a - 250, snd a) # sched" by simp
      with 1 show ?thesis by blast
    next
      case 2
      with Cons.IH obtain earlier later where
        "250 \<le> fst a" "sched = earlier @ (fst a - 250, snd a) # later"
        "list_all (\<lambda>l. fst a \<le> fst l) later"
        by blast
      then have "e # sched = (e # earlier) @ (fst a - 250, snd a) # later" by simp
      with \<open>250 \<le> fst a\<close> \<open>list_all (\<lambda>l. fst a \<le> fst l) later\<close> show ?thesis by blast
    qed
  next
    assume "250 \<le> fst a \<and>
       (\<exists>earlier later. e # sched = earlier @ (fst a - 250, snd a) # later \<and>
          list_all (\<lambda>l. fst a \<le> fst l) later)"
    then obtain earlier later where a: "250 \<le> fst a"
      and eq: "e # sched = earlier @ (fst a - 250, snd a) # later"
      and l: "list_all (\<lambda>l. fst a \<le> fst l) later"
      by blast
    show "quiet_before (e # sched) a"
    proof (cases earlier)
      case Nil
      with eq a l show ?thesis by simp
    next
      case (Cons e' earlier')
      with eq have "sched = earlier' @ (fst a - 250, snd a) # later" by simp
      with a l Cons.IH have "quiet_before sched a" by blast
      then show ?thesis by simp
    qed
  qed
qed

text \<open>
  C8. For every sequence of query edits and waits after mount: a value is applied to
  \<^verbatim>\<open>debouncedQuery\<close>, the query that filtering uses, only if it was scheduled 250 ms before
  and no timeout was scheduled (no edit was made) between the two moments, and
  \<^verbatim>\<open>debouncedQuery\<close> is always the initial empty string or the value applied last. An
  edit that changes the query replaces the pending timeout by one 250 ms ahead for the
  new value and applies nothing. In particular, when \<^verbatim>\<open>"a"\<close>, \<^verbatim>\<open>"ab"\<close> and \<^verbatim>\<open>"abc"\<close> are
  typed less than 250 ms apart, neither \<^verbatim>\<open>"a"\<close> nor \<^verbatim>\<open>"ab"\<close> is ever applied: apart from the
  initial empty string (whose timeout from mount fires if the first edit comes 250 ms
  or more after mount), only \<^verbatim>\<open>"abc"\<close> is applied, once 250 ms have passed after it.
\<close>

theorem debounce_quiet_period:
  "list_all (quiet_before (scheduled (run mount es))) (applied (run mount es)) \<and>
   debouncedQuery (run mount es) =
     (if applied (run mount es) = [] then [] else snd (last (applied (run mount es)))) \<and>
   (v \<noteq> query s \<longrightarrow>
      timer (step s (SetQuery v)) = Some (now s + 250, v) \<and>
      scheduled (step s (SetQuery v)) = scheduled s @ [(now s, v)] \<and>
      debouncedQuery (step s (SetQuery v)) = debouncedQuery s \<and>
      applied (step s (SetQuery v)) = applied s) \<and>
   (d1 < 250 \<and> d2 < 250 \<longrightarrow>
      applied (run mount [Elapse d0, SetQuery (js ''a''), Elapse d1, SetQuery (js ''ab''),
                          Elapse d2, SetQuery (js ''abc''), Elapse d3]) =
        (if 250 \<le> d0 then [(250, [])] else []) @
        (if 250 \<le> d3 then [(d0 + d1 + d2 + 250, js ''abc'')] else []) \<and>
      debouncedQuery (run mount [Elapse d0, SetQuery (js ''a''), Elapse d1,
                          SetQuery (js ''ab''), Elapse d2, SetQuery (js ''abc''), Elapse d3]) =
        (if 250 \<le> d3 then js ''abc'' else []))"
proof (intro conjI impI)
  have ok: "history_ok (run mount es)"
    by (rule history_ok_run [OF history_ok_mount])
  then show "list_all (quiet_before (scheduled (run mount es))) (applied (run mount es))"
    by (simp add: history_ok_def)
  from ok show "debouncedQuery (run mount es) =
     (if applied (run mount es) = [] then [] else snd (last (applied (run mount es))))"
    by (simp add: history_ok_def)
next
  assume "v \<noteq> query s"
  then show "timer (step s (SetQuery v)) = Some (now s + 250, v)"
    and "scheduled (step s (SetQuery v)) = scheduled s @ [(now s, v)]"
    and "debouncedQuery (step s (SetQuery v)) = debouncedQuery s"
    and "applied (step s (SetQuery v)) = applied s"
    by simp_all
next
  assume a: "d1 < 250 \<and> d2 < 250"
  then have d: "d1 < 250" "d2 < 250" by simp_all
  show "applied (run mount [Elapse d0, SetQuery (js ''a''), Elapse d1, SetQuery (js ''ab''),
                          Elapse d2, SetQuery (js ''abc''), Elapse d3]) =
        (if 250 \<le> d0 then [(250, [])] else []) @
        (if 250 \<le> d3 then [(d0 + d1 + d2 + 250, js ''abc'')] else [])"
    unfolding scenario_abc [OF d] by simp
  show "debouncedQuery (run mount [Elapse d0, SetQuery (js ''a''), Elapse d1,
                          SetQuery (js ''ab''), Elapse d2, SetQuery (js ''abc''), Elapse d3]) =
        (if 250 \<le> d3 then js ''abc'' else [])"
    unfolding scenario_abc [OF d] by simp
qed

theorem debounce_quiet_period_witness:
  "applied (run mount [Elapse 0, SetQuery (js ''a''), Elapse 100, SetQuery (js ''ab''),
                       Elapse 100, SetQuery (js ''abc''), Elapse 300]) =
     [(450, js ''abc'')] \<and>
   debouncedQuery (run mount [Elapse 0, SetQuery (js ''a''), Elapse 100, SetQuery (js ''ab''),
                       Elapse 100, SetQuery (js ''abc''), Elapse 300]) = js ''abc'' \<and>
   timer (step mount (SetQuery (js ''a''))) = Some (250, js ''a'')"
proof -
  have h: "(100::nat) < 250 \<and> (100::nat) < 250" by simp
  have q: "js ''a'' \<noteq> query mount" by (simp add: mount_def js_def)
  show ?thesis
    using debounce_quiet_period [of "[]" "js ''a''" mount 100 100 0 300] h q
    by (simp add: mount_def)
qed

subsection \<open>Roles outside the enumeration\<close>





lemma ingredientTable_rows:
  "map row_name (ingredientTable p) = map ing_name (inci p)"
  "map row_role (ingredientTable p) = map (\<lambda>ing. roleLabel (role ing)) (inci p)"
  by (simp_all add: ingredientTable_def ingredientRow_def)

lemma matchesText_ingredient:
  assumes "ing \<in> set (inci p)" and "is_substring q (toLowerCase unicode (ing_name ing))"
  shows "matchesText unicode q p"
  using assms by (auto simp: matchesText_def list_ex_iff js_includes_iff)


end
